theory Spec2Isabelle
  imports Main "HOL-Library.Word"
begin

section \<open>Error values\<close>

text \<open>
  A Go \<^verbatim>\<open>error\<close> is \<open>error option\<close>: \<open>None\<close> is \<^verbatim>\<open>nil\<close>. The two package-level
  sentinels are values of their own, because the program compares them by identity;
  \<open>Errorf s\<close> is any other plain error value whose \<^verbatim>\<open>Error()\<close> text is \<open>s\<close>;
  \<open>MultiError es\<close> is a \<^verbatim>\<open>*multierror.Error\<close> whose \<^verbatim>\<open>Errors\<close> field is \<open>es\<close>.
\<close>

datatype error =
    ErrTimeout
  | ErrNoFunctionSpecified
  | Errorf string
  | MultiError "error list"

subsection \<open>The library \<^verbatim>\<open>github.com/hashicorp/go-multierror\<close>\<close>

text \<open>
  The accumulator \<^verbatim>\<open>*multierror.Error\<close> is modelled by its \<^verbatim>\<open>Errors\<close> slice.
  \<^verbatim>\<open>multierror.Append(err, errs...)\<close> skips a \<^verbatim>\<open>nil\<close> argument, appends a plain error as
  one element, and flattens an argument that is itself a \<^verbatim>\<open>*multierror.Error\<close> by
  appending its elements. \<^verbatim>\<open>ErrorOrNil\<close> is \<^verbatim>\<open>nil\<close> exactly when the slice is empty.
\<close>

fun components :: "error \<Rightarrow> error list" where
  "components (MultiError es) = es"
| "components e = [e]"

definition Append :: "error list \<Rightarrow> error option \<Rightarrow> error list" where
  "Append errs e = (case e of None \<Rightarrow> errs | Some x \<Rightarrow> errs @ components x)"

definition AppendAll :: "error list \<Rightarrow> error list \<Rightarrow> error list" where
  "AppendAll errs es = foldl Append errs (map Some es)"

definition ErrorOrNil :: "error list \<Rightarrow> error option" where
  "ErrorOrNil errs = (if errs = [] then None else Some (MultiError errs))"

subsection \<open>Text of an error\<close>

definition newline :: char where
  "newline = CHR 0x0A"

definition tab :: char where
  "tab = CHR 0x09"

fun digit :: "nat \<Rightarrow> char" where
  "digit n = ''0123456789'' ! (n mod 10)"

function decimal :: "nat \<Rightarrow> string" where
  "decimal n = (if n < 10 then [digit n] else decimal (n div 10) @ [digit n])"
  by pat_completeness auto
termination
  by (relation "measure id") auto

declare decimal.simps [simp del]

fun join :: "string \<Rightarrow> string list \<Rightarrow> string" where
  "join sep [] = []"
| "join sep [x] = x"
| "join sep (x # y # ys) = x @ sep @ join sep (y # ys)"

text \<open>The library's default \<^verbatim>\<open>ListFormatFunc\<close>, on the texts of the elements.\<close>

definition ListFormatFunc :: "string list \<Rightarrow> string" where
  "ListFormatFunc es =
     (if length es = 1
      then ''1 error occurred:'' @ [newline, tab] @ ''* '' @ hd es @ [newline, newline]
      else decimal (length es) @ '' errors occurred:'' @ [newline, tab]
           @ join [newline, tab] (map (\<lambda>e. ''* '' @ e) es) @ [newline, newline])"

fun Error :: "error \<Rightarrow> string" where
  "Error ErrTimeout = ''timeout error''"
| "Error ErrNoFunctionSpecified = ''no function is specified''"
| "Error (Errorf s) = s"
| "Error (MultiError es) = ListFormatFunc (map Error es)"

section \<open>The Retryable\<close>

type_synonym duration = "64 word"

text \<open>
  What one call of a Go function does: it returns, or it panics. \<open>Panics v tr\<close>
  carries \<open>v\<close>, the \<^verbatim>\<open>%v\<close> text of the value that \<^verbatim>\<open>recover()\<close> yields in a deferred
  function (\<open>None\<close> when \<^verbatim>\<open>recover()\<close> yields \<^verbatim>\<open>nil\<close>, which is what \<^verbatim>\<open>panic(nil)\<close> gives
  under the language rules before Go 1.21 and under \<^verbatim>\<open>GODEBUG=panicnil=1\<close> since), and
  \<open>tr\<close>, the full trace the runtime would format at that moment (\<open>tr True\<close> for all
  goroutines, \<open>tr False\<close> for the current one).
\<close>

datatype 'a ran =
    Returns 'a
  | Panics "string option" "bool \<Rightarrow> string"

text \<open>A \<^verbatim>\<open>func() error\<close>, acting on a state of its own; \<open>None\<close> is \<^verbatim>\<open>nil\<close>.\<close>

type_synonym 's operation = "'s \<Rightarrow> error option ran \<times> 's"

text \<open>
  A \<^verbatim>\<open>time.Duration\<close> is an \<^verbatim>\<open>int64\<close>: a word of 64 bits, compared as a signed
  number. \<^verbatim>\<open>stackSize\<close> and \<^verbatim>\<open>maxAttemptTimes\<close> are of type \<^verbatim>\<open>int\<close>; the program only
  compares them with zero and counts down from a positive value, which no width
  changes, so they are integers here.

  The field \<^verbatim>\<open>f\<close> of the Retryable is \<open>func\<close> here. The closure stored in it reads
  \<^verbatim>\<open>r.stackSize\<close> and \<^verbatim>\<open>r.allGoroutines\<close> through the pointer \<^verbatim>\<open>r\<close> when it runs, not
  when it is built; the model passes both at the call. \<open>Inl\<close> is a panic that
  leaves the closure.
\<close>

type_synonym 's slot = "int \<Rightarrow> bool \<Rightarrow> 's \<Rightarrow> (string + error option) \<times> 's"

record 's Retryable =
  stackSize :: int
  allGoroutines :: bool
  maxAttemptTimes :: int
  maxDelay :: duration
  waitFixed :: duration
  waitRandomMin :: duration
  waitRandomMax :: duration
  func :: "'s slot"
  errors :: "error list"

definition defaultStackSize :: int where
  "defaultStackSize = 4096"

definition defaultMaxAttemptTimes :: int where
  "defaultMaxAttemptTimes = 1"

definition New :: "'s Retryable" where
  "New = \<lparr> stackSize = defaultStackSize, allGoroutines = False,
           maxAttemptTimes = defaultMaxAttemptTimes, maxDelay = 0,
           waitFixed = 0, waitRandomMin = 0, waitRandomMax = 0,
           func = (\<lambda>stk allg s. (Inr (Some ErrNoFunctionSpecified), s)),
           errors = [] \<rparr>"

subsection \<open>Option setters\<close>

definition Stack :: "int \<Rightarrow> bool \<Rightarrow> 's Retryable \<Rightarrow> 's Retryable" where
  "Stack n all r =
     (let r1 = (if n \<le> 0
                then r\<lparr>errors := errors r @ [Errorf ''stack size must be positive integer'']\<rparr>
                else r)
      in r1\<lparr>stackSize := n, allGoroutines := all\<rparr>)"

definition MaxAttemptTimes :: "int \<Rightarrow> 's Retryable \<Rightarrow> 's Retryable" where
  "MaxAttemptTimes n r =
     (let r1 = (if n \<le> 0
                then r\<lparr>errors := errors r @ [Errorf ''max attempt times must be positive integer'']\<rparr>
                else r)
      in r1\<lparr>maxAttemptTimes := n\<rparr>)"

definition MaxDelay :: "duration \<Rightarrow> 's Retryable \<Rightarrow> 's Retryable" where
  "MaxDelay d r =
     (let r1 = (if d \<le>s 0
                then r\<lparr>errors := errors r @ [Errorf ''max delay must be positive duration'']\<rparr>
                else r)
      in r1\<lparr>maxDelay := d\<rparr>)"

definition WaitFixed :: "duration \<Rightarrow> 's Retryable \<Rightarrow> 's Retryable" where
  "WaitFixed d r =
     (let r1 = (if d \<le>s 0
                then r\<lparr>errors := errors r @ [Errorf ''wait fixed must be positive duration'']\<rparr>
                else r)
      in r1\<lparr>waitFixed := d\<rparr>)"

definition WaitRandom :: "duration \<Rightarrow> duration \<Rightarrow> 's Retryable \<Rightarrow> 's Retryable" where
  "WaitRandom mn mx r =
     (let r1 = (if mn <s 0 \<or> mx <s 0
                then r\<lparr>errors := errors r @ [Errorf ''wait random min/max must be positive duration'']\<rparr>
                else r);
          r2 = (if mx \<le>s mn
                then r1\<lparr>errors := errors r1 @ [Errorf ''wait random min must be smaller than max'']\<rparr>
                else r1)
      in r2\<lparr>waitRandomMin := mn, waitRandomMax := mx\<rparr>)"

subsection \<open>The recovering wrapper\<close>

text \<open>
  \<^verbatim>\<open>runtime.Stack(buf, all)\<close> writes the trace into \<^verbatim>\<open>buf\<close>, cut at \<^verbatim>\<open>len(buf)\<close>; the
  bytes it does not reach keep the zero that \<^verbatim>\<open>make\<close> gave them. The wrapper formats
  the whole of \<^verbatim>\<open>buf\<close> with \<^verbatim>\<open>%s\<close>, not only the bytes written.
\<close>

definition runtime_Stack :: "nat \<Rightarrow> string \<Rightarrow> string" where
  "runtime_Stack n trace = take n trace @ replicate (n - length trace) (CHR 0x00)"

text \<open>
  \<^verbatim>\<open>make([]byte, n)\<close> panics for a negative \<open>n\<close>; this happens in the deferred
  function, so that panic leaves the wrapper. For every other \<open>n\<close> the buffer is
  taken to be there: memory has no limit here. A \<^verbatim>\<open>nil\<close> from \<^verbatim>\<open>recover()\<close> leaves the
  named result \<^verbatim>\<open>err\<close> at its zero value \<^verbatim>\<open>nil\<close>.
\<close>

definition wrapRecoverFunc :: "'s operation \<Rightarrow> 's slot" where
  "wrapRecoverFunc f stk allg s =
     (case f s of
        (Returns err, s') \<Rightarrow> (Inr err, s')
      | (Panics None tr, s') \<Rightarrow> (Inr None, s')
      | (Panics (Some e) tr, s') \<Rightarrow>
          (if stk < 0 then (Inl ''runtime error: makeslice: len out of range'', s')
           else (Inr (Some (Errorf (e @ [newline] @ runtime_Stack (nat stk) (tr allg) @ [newline]))), s')))"

subsection \<open>Binding the operation\<close>

text \<open>
  What \<^verbatim>\<open>reflect\<close> reports about the value passed to \<^verbatim>\<open>Function\<close>: its kind, the
  number of inputs, whether the last input is variadic, and for each output
  whether its type implements \<^verbatim>\<open>error\<close>.
  \<^verbatim>\<open>reflect.TypeOf\<close> of the \<^verbatim>\<open>nil\<close> interface is the \<^verbatim>\<open>nil\<close> type, and a method call
  on it dereferences a nil pointer.
\<close>

datatype kind =
    Invalid | Bool | Int_kind | Int8 | Int16 | Int32 | Int64
  | Uint | Uint8 | Uint16 | Uint32 | Uint64 | Uintptr
  | Float32 | Float64 | Complex64 | Complex128
  | Array | Chan | Func | Interface | Map | Ptr | Slice | String | Struct | UnsafePointer

fun kind_String :: "kind \<Rightarrow> string" where
  "kind_String Invalid = ''invalid''"
| "kind_String Bool = ''bool''"
| "kind_String Int_kind = ''int''"
| "kind_String Int8 = ''int8''"
| "kind_String Int16 = ''int16''"
| "kind_String Int32 = ''int32''"
| "kind_String Int64 = ''int64''"
| "kind_String Uint = ''uint''"
| "kind_String Uint8 = ''uint8''"
| "kind_String Uint16 = ''uint16''"
| "kind_String Uint32 = ''uint32''"
| "kind_String Uint64 = ''uint64''"
| "kind_String Uintptr = ''uintptr''"
| "kind_String Float32 = ''float32''"
| "kind_String Float64 = ''float64''"
| "kind_String Complex64 = ''complex64''"
| "kind_String Complex128 = ''complex128''"
| "kind_String Array = ''array''"
| "kind_String Chan = ''chan''"
| "kind_String Func = ''func''"
| "kind_String Interface = ''interface''"
| "kind_String Map = ''map''"
| "kind_String Ptr = ''ptr''"
| "kind_String Slice = ''slice''"
| "kind_String String = ''string''"
| "kind_String Struct = ''struct''"
| "kind_String UnsafePointer = ''unsafe.Pointer''"

record rtype =
  Kind :: kind
  NumIn :: nat
  IsVariadic :: bool
  Out :: "bool list"

text \<open>
  The last output of a call, as the closure reads it through \<^verbatim>\<open>reflect\<close>: a nil value
  (for a function without output, what the call returns is not read); a value that
  is not nil and is the error \<open>e\<close>; a value of a kind \<open>k\<close> that has no nil, on which
  \<^verbatim>\<open>IsNil\<close> panics; a value that is not nil and whose type \<open>t\<close> is no error, on which
  the type assertion panics.
\<close>

datatype last_output =
    NilValue
  | ErrorValue error
  | NoNil kind
  | NoError string

type_synonym 's go_func = "'s \<Rightarrow> last_output ran \<times> 's"

text \<open>
  The argument of \<^verbatim>\<open>Function\<close>: the \<^verbatim>\<open>nil\<close> interface, or a value with its type, with
  what the function does when it is called (only a function is ever called), and
  with the trace of a panic raised by \<^verbatim>\<open>reflect\<close> in the closure around that call.
\<close>

datatype 's go_value =
    NilInterface
  | Value rtype "'s go_func" "bool \<Rightarrow> string"

fun TypeOf :: "'s go_value \<Rightarrow> rtype option" where
  "TypeOf NilInterface = None"
| "TypeOf (Value typ body site) = Some typ"

definition NumOut :: "rtype \<Rightarrow> nat" where
  "NumOut typ = length (Out typ)"

text \<open>
  \<^verbatim>\<open>val.Call(nil)\<close> panics when the function wants arguments: an input that is not
  variadic. A variadic last input takes none. (\<^verbatim>\<open>Function\<close> builds
  a closure from a value whose type it has looked at, so never from the \<^verbatim>\<open>nil\<close>
  interface; on the zero \<^verbatim>\<open>Value\<close> of it \<^verbatim>\<open>Call\<close> would panic too.)
\<close>

definition Call :: "'s go_value \<Rightarrow> 's go_func" where
  "Call i s =
     (case i of
        NilInterface \<Rightarrow>
          (Panics (Some ''reflect: call of reflect.Value.Call on zero Value'') (\<lambda>allg. []), s)
      | Value typ body site \<Rightarrow>
          (if (if IsVariadic typ then NumIn typ - 1 else NumIn typ) \<noteq> 0
           then (Panics (Some ''reflect: Call with too few input arguments'') site, s)
           else body s))"

fun site_of :: "'s go_value \<Rightarrow> bool \<Rightarrow> string" where
  "site_of NilInterface = (\<lambda>allg. [])"
| "site_of (Value typ body site) = site"

text \<open>
  The closure for a function without output: \<^verbatim>\<open>val.Call(nil); return nil\<close>.
\<close>

definition closure0 :: "'s go_value \<Rightarrow> 's operation" where
  "closure0 i s =
     (case Call i s of
        (Returns out, s') \<Rightarrow> (Returns None, s')
      | (Panics v tr, s') \<Rightarrow> (Panics v tr, s'))"

text \<open>
  The closure for a function with outputs: it calls, takes the last output,
  returns \<^verbatim>\<open>nil\<close> if \<^verbatim>\<open>lastOutput.IsNil()\<close>, and else
  \<^verbatim>\<open>lastOutput.Interface().(error)\<close>.
\<close>

definition closureN :: "'s go_value \<Rightarrow> 's operation" where
  "closureN i s =
     (case Call i s of
        (Panics v tr, s') \<Rightarrow> (Panics v tr, s')
      | (Returns (NoNil k), s') \<Rightarrow>
          (Panics (Some (''reflect: call of reflect.Value.IsNil on '' @ kind_String k @ '' Value''))
             (site_of i), s')
      | (Returns NilValue, s') \<Rightarrow> (Returns None, s')
      | (Returns (ErrorValue e), s') \<Rightarrow> (Returns (Some e), s')
      | (Returns (NoError t), s') \<Rightarrow>
          (Panics (Some (''interface conversion: '' @ t @ '' is not error: missing method Error''))
             (site_of i), s'))"

definition nil_dereference :: string where
  "nil_dereference = ''runtime error: invalid memory address or nil pointer dereference''"

text \<open>\<open>Inl\<close> is a panic that leaves \<^verbatim>\<open>Function\<close>: nothing in it recovers.\<close>

definition Function :: "'s go_value \<Rightarrow> 's Retryable \<Rightarrow> string + 's Retryable" where
  "Function i r =
     (case TypeOf i of
        None \<Rightarrow> Inl nil_dereference
      | Some typ \<Rightarrow>
          (if Kind typ \<noteq> Func
           then Inr (r\<lparr>errors := errors r @
                       [Errorf (''expected type '' @ kind_String Func @ '' but get '' @ kind_String (Kind typ))]\<rparr>)
           else
             (let r1 = (if NumIn typ \<noteq> 0
                        then r\<lparr>errors := errors r @
                                [Errorf (''expected 0 inputs but get '' @ decimal (NumIn typ))]\<rparr>
                        else r);
                  r2 = (if NumOut typ > 0 \<and> \<not> (Out typ ! (NumOut typ - 1))
                        then r1\<lparr>errors := errors r1 @
                                [Errorf ''expected 0 output or last output implements error interface'']\<rparr>
                        else r1)
              in Inr (r2\<lparr>func := wrapRecoverFunc
                                   (if NumOut typ = 0 then closure0 i else closureN i)\<rparr>))))"

section \<open>The world the engine acts on\<close>

text \<open>
  The state the operation reads and writes, the arguments given to \<^verbatim>\<open>sleep\<close> (a
  package variable, so that a test can replace \<^verbatim>\<open>time.Sleep\<close>) in the order of the
  calls, and the source of \<^verbatim>\<open>math/rand\<close> as the sequence of its draws with the
  position of the next one. \<open>invoked\<close> is not in the program: it counts the calls
  of \<^verbatim>\<open>r.f()\<close>, to state how often the operation ran.
\<close>

record 's world =
  opstate :: 's
  invoked :: nat
  slept :: "duration list"
  randsrc :: "nat \<Rightarrow> nat"
  randpos :: nat

definition sleep :: "duration \<Rightarrow> 's world \<Rightarrow> 's world" where
  "sleep d w = w\<lparr>slept := slept w @ [d]\<rparr>"

text \<open>
  \<^verbatim>\<open>rand.Int63n(n)\<close> by its contract: it panics for \<open>n \<le> 0\<close>, and otherwise returns
  a number of \<open>[0, n)\<close> and moves the source on. Which number is up to the draw, so
  every number of the interval can come.
\<close>

definition Int63n :: "64 word \<Rightarrow> 's world \<Rightarrow> string + (64 word \<times> 's world)" where
  "Int63n n w =
     (if n \<le>s 0 then Inl ''invalid argument to Int63n''
      else Inr (word_of_nat (randsrc w (randpos w) mod unat n), w\<lparr>randpos := randpos w + 1\<rparr>))"

section \<open>The engine\<close>

definition wait :: "'s Retryable \<Rightarrow> 's world \<Rightarrow> string + 's world" where
  "wait r w =
     (let duration = waitFixed r
      in if duration \<le>s 0 \<and> waitRandomMin r <s waitRandomMax r
         then (case Int63n (waitRandomMax r - waitRandomMin r) w of
                 Inl p \<Rightarrow> Inl p
               | Inr (v, w') \<Rightarrow> Inr (sleep (waitRandomMin r + v) w'))
         else Inr (sleep duration w))"

text \<open>One evaluation of \<^verbatim>\<open>r.f()\<close>.\<close>

definition call_f :: "'s Retryable \<Rightarrow> 's world \<Rightarrow> (string + error option) \<times> 's world" where
  "call_f r w =
     (case func r (stackSize r) (allGoroutines r) (opstate w) of
        (res, s') \<Rightarrow> (res, w\<lparr>opstate := s', invoked := invoked w + 1\<rparr>))"

text \<open>
  What a run of \<^verbatim>\<open>Try\<close> comes to: it returns an error or \<^verbatim>\<open>nil\<close>, or a panic leaves
  it; each with the world at that moment. \<open>Unfinished\<close> is for a schedule of the
  bounded-time mode (below) that is not a run up to the return.
\<close>

datatype 's outcome =
    Returned "error option" "'s world"
  | Panicked string "'s world"
  | Unfinished

subsection \<open>Without a deadline\<close>

function tryLoop :: "'s Retryable \<Rightarrow> int \<Rightarrow> error list \<Rightarrow> 's world \<Rightarrow> 's outcome" where
  "tryLoop r count errs w =
     (if count > 0 then
        (case call_f r w of
           (Inl p, w1) \<Rightarrow> Panicked p w1
         | (Inr err, w1) \<Rightarrow>
             (let errs' = Append errs err
              in case err of
                   None \<Rightarrow> Returned None w1
                 | Some _ \<Rightarrow>
                     (case wait r w1 of
                        Inl p \<Rightarrow> Panicked p w1
                      | Inr w2 \<Rightarrow> tryLoop r (count - 1) errs' w2)))
      else Returned (ErrorOrNil errs) w)"
  by pat_completeness auto
termination
  by (relation "measure (\<lambda>(r, count, errs, w). nat count)") auto

declare tryLoop.simps [simp del]

definition tryWithoutTimeout :: "'s Retryable \<Rightarrow> 's world \<Rightarrow> 's outcome" where
  "tryWithoutTimeout r w = tryLoop r (maxAttemptTimes r) [] w"

subsection \<open>With a deadline\<close>

text \<open>
  Two goroutines and a timer. The producer runs
  \<^verbatim>\<open>for ; count > 0; count-- { errChan <- r.f(); r.wait() }\<close>: at \<open>PLoop\<close> it tests
  \<^verbatim>\<open>count\<close> and evaluates \<^verbatim>\<open>r.f()\<close>, at \<open>PSend e\<close> it is blocked on the unbuffered
  channel with the result \<open>e\<close>, at \<open>PWait\<close> it is about to call \<^verbatim>\<open>r.wait()\<close>, at
  \<open>PDec\<close> about to decrement \<^verbatim>\<open>count\<close>. The coordinator is in its \<^verbatim>\<open>select\<close>
  (\<open>CSelect\<close>), or has received \<open>e\<close> and not yet run the body of that case
  (\<open>CGot e\<close>), or has returned. \<^verbatim>\<open>count\<close> is one variable, written by the producer
  and read by the coordinator.
\<close>

datatype producer = PLoop | PSend "error option" | PWait | PDec | PDone | PCrashed string

datatype coordinator = CSelect | CGot "error option" | CReturned "error option"

record 's race =
  world :: "'s world"
  count :: int
  prod :: producer
  coord :: coordinator
  acc :: "error list"
  fired :: bool

text \<open>
  A schedule is the order in which things happen: the producer runs to its next
  point, the channel hands a result over (the producer is sending and the
  coordinator's \<^verbatim>\<open>select\<close> takes that case), the coordinator runs the body of the
  receive case, the timer fires, the \<^verbatim>\<open>select\<close> takes the timer case. Nothing runs
  once \<^verbatim>\<open>Try\<close> has returned or a panic in the producer has ended the program.
  There is no clock: the timer fires where the schedule says, and a duration given
  to \<^verbatim>\<open>sleep\<close> is recorded, not waited for. A \<^verbatim>\<open>select\<close> at which a result is ready
  and the timer has fired may take either case, as in Go.
\<close>

datatype event = Producer | Deliver | Coordinator | TimerFires | Timeout

definition running :: "'s race \<Rightarrow> bool" where
  "running c = (case coord c of
                  CReturned _ \<Rightarrow> False
                | _ \<Rightarrow> (case prod c of PCrashed _ \<Rightarrow> False | _ \<Rightarrow> True))"

fun act :: "'s Retryable \<Rightarrow> event \<Rightarrow> 's race \<Rightarrow> 's race option" where
  "act r Producer c =
     (case prod c of
        PLoop \<Rightarrow>
          (if count c > 0
           then (case call_f r (world c) of
                   (Inl p, w') \<Rightarrow> Some (c\<lparr>world := w', prod := PCrashed p\<rparr>)
                 | (Inr e, w') \<Rightarrow> Some (c\<lparr>world := w', prod := PSend e\<rparr>))
           else Some (c\<lparr>prod := PDone\<rparr>))
      | PWait \<Rightarrow>
          (case wait r (world c) of
             Inl p \<Rightarrow> Some (c\<lparr>prod := PCrashed p\<rparr>)
           | Inr w' \<Rightarrow> Some (c\<lparr>world := w', prod := PDec\<rparr>))
      | PDec \<Rightarrow> Some (c\<lparr>count := count c - 1, prod := PLoop\<rparr>)
      | _ \<Rightarrow> None)"
| "act r Deliver c =
     (case (prod c, coord c) of
        (PSend e, CSelect) \<Rightarrow> Some (c\<lparr>prod := PWait, coord := CGot e\<rparr>)
      | _ \<Rightarrow> None)"
| "act r Coordinator c =
     (case coord c of
        CGot e \<Rightarrow>
          (let errs = Append (acc c) e
           in case e of
                None \<Rightarrow> Some (c\<lparr>acc := errs, coord := CReturned None\<rparr>)
              | Some _ \<Rightarrow>
                  (if count c \<le> 0
                   then Some (c\<lparr>acc := errs, coord := CReturned (ErrorOrNil errs)\<rparr>)
                   else Some (c\<lparr>acc := errs, coord := CSelect\<rparr>)))
      | _ \<Rightarrow> None)"
| "act r TimerFires c = (if fired c then None else Some (c\<lparr>fired := True\<rparr>))"
| "act r Timeout c =
     (case coord c of
        CSelect \<Rightarrow> (if fired c then Some (c\<lparr>coord := CReturned (Some ErrTimeout)\<rparr>) else None)
      | _ \<Rightarrow> None)"

definition step :: "'s Retryable \<Rightarrow> event \<Rightarrow> 's race \<Rightarrow> 's race option" where
  "step r e c = (if running c then act r e c else None)"

fun run :: "'s Retryable \<Rightarrow> event list \<Rightarrow> 's race \<Rightarrow> 's race option" where
  "run r [] c = Some c"
| "run r (e # es) c = (case step r e c of None \<Rightarrow> None | Some c' \<Rightarrow> run r es c')"

definition start :: "'s Retryable \<Rightarrow> 's world \<Rightarrow> 's race" where
  "start r w = \<lparr> world = w, count = maxAttemptTimes r, prod = PLoop, coord = CSelect,
                 acc = [], fired = False \<rparr>"

definition tryWithTimeout :: "'s Retryable \<Rightarrow> event list \<Rightarrow> 's world \<Rightarrow> 's outcome" where
  "tryWithTimeout r sched w =
     (case run r sched (start r w) of
        None \<Rightarrow> Unfinished
      | Some c \<Rightarrow>
          (case prod c of
             PCrashed p \<Rightarrow> Panicked p (world c)
           | _ \<Rightarrow> (case coord c of CReturned res \<Rightarrow> Returned res (world c) | _ \<Rightarrow> Unfinished)))"

subsection \<open>The entry point\<close>

text \<open>The schedule matters only in the bounded-time mode.\<close>

definition Try :: "'s Retryable \<Rightarrow> event list \<Rightarrow> 's world \<Rightarrow> 's outcome" where
  "Try r sched w =
     (let errs = AppendAll [] (errors r)
      in case ErrorOrNil errs of
           Some err \<Rightarrow> Returned (Some err) w
         | None \<Rightarrow>
             (if 0 <s maxDelay r then tryWithTimeout r sched w
              else tryWithoutTimeout r w))"

section \<open>Chains of configuration calls\<close>

datatype 's call =
    CallStack int bool
  | CallMaxAttemptTimes int
  | CallMaxDelay duration
  | CallWaitFixed duration
  | CallWaitRandom duration duration
  | CallFunction "'s go_value"

fun apply_call :: "'s call \<Rightarrow> 's Retryable \<Rightarrow> string + 's Retryable" where
  "apply_call (CallStack n all) r = Inr (Stack n all r)"
| "apply_call (CallMaxAttemptTimes n) r = Inr (MaxAttemptTimes n r)"
| "apply_call (CallMaxDelay d) r = Inr (MaxDelay d r)"
| "apply_call (CallWaitFixed d) r = Inr (WaitFixed d r)"
| "apply_call (CallWaitRandom mn mx) r = Inr (WaitRandom mn mx r)"
| "apply_call (CallFunction i) r = Function i r"

text \<open>A chain \<^verbatim>\<open>New().A(...).B(...)\<close>; a panic in one call ends it.\<close>

fun chain :: "'s call list \<Rightarrow> 's Retryable \<Rightarrow> string + 's Retryable" where
  "chain [] r = Inr r"
| "chain (c # cs) r = (case apply_call c r of Inl p \<Rightarrow> Inl p | Inr r' \<Rightarrow> chain cs r')"

section \<open>Notions used to state the properties\<close>

text \<open>A plain error is one that is not a \<^verbatim>\<open>*multierror.Error\<close>.\<close>

fun plain :: "error \<Rightarrow> bool" where
  "plain (MultiError es) = False"
| "plain e = True"

text \<open>
  The number of rules of the policy that the values of one configuration call break,
  rule by rule as the specification lists them: the attempt count, the deadline, the
  fixed wait and the buffer size are positive; the random bounds are not negative;
  the lower random bound is below the upper one; the operation is a function, takes
  no argument, and has no result or a last result that is an error.
\<close>

fun violations :: "'s call \<Rightarrow> nat" where
  "violations (CallStack n all) = (if 1 \<le> n then 0 else 1)"
| "violations (CallMaxAttemptTimes n) = (if 1 \<le> n then 0 else 1)"
| "violations (CallMaxDelay d) = (if 0 < sint d then 0 else 1)"
| "violations (CallWaitFixed d) = (if 0 < sint d then 0 else 1)"
| "violations (CallWaitRandom mn mx) =
     (if 0 \<le> sint mn \<and> 0 \<le> sint mx then 0 else 1) + (if sint mn < sint mx then 0 else 1)"
| "violations (CallFunction NilInterface) = 0"
| "violations (CallFunction (Value typ body site)) =
     (if Kind typ = Func
      then (if NumIn typ = 0 then 0 else 1)
           + (if Out typ = [] \<or> last (Out typ) then 0 else 1)
      else 1)"

text \<open>
  What the setters guarantee of a Retryable that carries no validation error: the
  ranges of the options, and an operation slot from which no panic comes as long as
  the buffer size is not negative.
\<close>

definition safe :: "'s slot \<Rightarrow> bool" where
  "safe fn = (\<forall>stk allg s. 0 \<le> stk \<longrightarrow> (\<exists>e s'. fn stk allg s = (Inr e, s')))"

definition valid :: "'s Retryable \<Rightarrow> bool" where
  "valid r = (0 < stackSize r \<and> 0 < maxAttemptTimes r \<and> 0 \<le>s maxDelay r
              \<and> 0 \<le>s waitFixed r \<and> 0 \<le>s waitRandomMin r \<and> safe (func r))"

text \<open>
  The results of \<open>n\<close> calls of \<^verbatim>\<open>r.f()\<close> in a row, the first from the operation state
  \<open>s\<close>, each from the state the call before left.
\<close>

fun results :: "'s Retryable \<Rightarrow> nat \<Rightarrow> 's \<Rightarrow> (string + error option) list" where
  "results r 0 s = []"
| "results r (Suc n) s =
     (case func r (stackSize r) (allGoroutines r) s of (res, s') \<Rightarrow> res # results r n s')"

text \<open>A call of \<^verbatim>\<open>r.f()\<close> that returns the failure \<open>e\<close>.\<close>

definition failure :: "error \<Rightarrow> string + error option" where
  "failure e = Inr (Some e)"

text \<open>The operation fails whenever it is called.\<close>

definition always_fails :: "'s Retryable \<Rightarrow> bool" where
  "always_fails r = (\<forall>s. \<exists>e s'. func r (stackSize r) (allGoroutines r) s = (failure e, s'))"

text \<open>No call of the chain is a call of \<^verbatim>\<open>Function\<close>.\<close>

fun is_Function :: "'s call \<Rightarrow> bool" where
  "is_Function (CallFunction i) = True"
| "is_Function c = False"

definition never_bound :: "'s call list \<Rightarrow> bool" where
  "never_bound cs = (filter is_Function cs = [])"

text \<open>
  The producer is in the body of its loop or at the decrement that ends a round:
  it has passed the test \<^verbatim>\<open>count > 0\<close> and has not decremented since.
\<close>

fun in_round :: "producer \<Rightarrow> bool" where
  "in_round (PSend e) = True"
| "in_round PWait = True"
| "in_round PDec = True"
| "in_round p = False"

text \<open>
  The schedule of \<open>n\<close> attempts in which the coordinator runs the body of its
  receive case as soon as it has the result, before the producer has waited and
  decremented; then the producer finds its loop at its end, the timer fires and the
  \<^verbatim>\<open>select\<close> takes the timer case.
\<close>

definition early_checks :: "nat \<Rightarrow> event list" where
  "early_checks n = concat (replicate n [Producer, Deliver, Coordinator, Producer, Producer])"

definition checks_then_deadline :: "nat \<Rightarrow> event list" where
  "checks_then_deadline n = early_checks n @ [Producer, TimerFires, Timeout]"

text \<open>The number of results the channel has handed over before the timer fires.\<close>

definition delivered_before_deadline :: "event list \<Rightarrow> nat" where
  "delivered_before_deadline sched =
     length (filter (\<lambda>e. e = Deliver) (takeWhile (\<lambda>e. e \<noteq> TimerFires) sched))"

section \<open>Example inputs\<close>

text \<open>The types \<^verbatim>\<open>func() error\<close> and \<^verbatim>\<open>func()\<close>.\<close>

definition func_error :: rtype where
  "func_error = \<lparr> Kind = Func, NumIn = 0, IsVariadic = False, Out = [True] \<rparr>"

definition func_plain :: rtype where
  "func_plain = \<lparr> Kind = Func, NumIn = 0, IsVariadic = False, Out = [] \<rparr>"

text \<open>A world whose operation state counts the calls made so far.\<close>

definition w0 :: "nat world" where
  "w0 = \<lparr> opstate = 0, invoked = 0, slept = [], randsrc = (\<lambda>i. 7 * i + 3), randpos = 0 \<rparr>"

text \<open>
  \<^verbatim>\<open>func() error { n++; return fmt.Errorf("failure %d", n) }\<close>,
  the same with \<^verbatim>\<open>if n == 3 { return nil }\<close> before the return,
  \<^verbatim>\<open>func() error { return multierror.Append(nil, errors.New("a"), errors.New("b")) }\<close>,
  \<^verbatim>\<open>func() { panic("panic here") }\<close> and \<^verbatim>\<open>func() { panic(nil) }\<close>.
\<close>

definition op_fails :: "nat go_func" where
  "op_fails s = (Returns (ErrorValue (Errorf (''failure '' @ decimal (s + 1)))), s + 1)"

definition op_third :: "nat go_func" where
  "op_third s =
     (if s + 1 = 3 then (Returns NilValue, s + 1)
      else (Returns (ErrorValue (Errorf (''failure '' @ decimal (s + 1)))), s + 1))"

definition op_composite :: "nat go_func" where
  "op_composite s = (Returns (ErrorValue (MultiError [Errorf ''a'', Errorf ''b''])), s)"

definition trace0 :: "bool \<Rightarrow> string" where
  "trace0 allg = (if allg then ''goroutine 1 [running]: goroutine 2 [sleep]:''
                  else ''goroutine 1 [running]:'')"

definition op_panics :: "nat go_func" where
  "op_panics s = (Panics (Some ''panic here'') trace0, s + 1)"

definition op_panics_nil :: "nat go_func" where
  "op_panics_nil s = (Panics None trace0, s + 1)"

text \<open>The last of these as an operation of type \<^verbatim>\<open>func() error\<close>.\<close>

definition raw_panics_nil :: "nat operation" where
  "raw_panics_nil s = (Panics None trace0, s + 1)"

text \<open>
  The inputs of the repository's tests: the value \<^verbatim>\<open>1\<close>, the types
  \<^verbatim>\<open>func(int) int\<close> and \<^verbatim>\<open>func(int)\<close>, a function that does nothing, and, on a
  counter that starts at 5, \<^verbatim>\<open>c--; if c == 2 { return }; panic("panic here")\<close> and
  \<^verbatim>\<open>c--; if c == 2 { return nil }; return fmt.Errorf("")\<close>.
\<close>

definition int_type :: rtype where
  "int_type = \<lparr> Kind = Int_kind, NumIn = 0, IsVariadic = False, Out = [] \<rparr>"

definition func_int_int :: rtype where
  "func_int_int = \<lparr> Kind = Func, NumIn = 1, IsVariadic = False, Out = [False] \<rparr>"

definition func_int :: rtype where
  "func_int = \<lparr> Kind = Func, NumIn = 1, IsVariadic = False, Out = [] \<rparr>"

definition does_nothing :: "int go_func" where
  "does_nothing c = (Returns NilValue, c)"

definition after_two_panics :: "int go_func" where
  "after_two_panics c =
     (if c - 1 = 2 then (Returns NilValue, c - 1)
      else (Panics (Some ''panic here'') trace0, c - 1))"

definition after_two_errors :: "int go_func" where
  "after_two_errors c =
     (if c - 1 = 2 then (Returns NilValue, c - 1)
      else (Returns (ErrorValue (Errorf [])), c - 1))"

definition always_panics :: "int go_func" where
  "always_panics c = (Panics (Some ''DLLM'') trace0, c)"

definition w5 :: "int world" where
  "w5 = \<lparr> opstate = 5, invoked = 0, slept = [], randsrc = (\<lambda>i. 7 * i + 3), randpos = 0 \<rparr>"

text \<open>The Retryable a chain of calls on \<^verbatim>\<open>New()\<close> gives, when none of them panics.\<close>

definition configured :: "'s call list \<Rightarrow> 's Retryable" where
  "configured cs = (case chain cs New of Inr r \<Rightarrow> r | Inl p \<Rightarrow> New)"

section \<open>Arithmetic of durations\<close>

lemma sint_nonneg_uint:
  fixes n :: "64 word"
  assumes "0 \<le> sint n"
  shows "sint n = uint n"
proof (cases "uint n < 2 ^ 63")
  case True
  have "- (2 ^ 63) \<le> uint n"
    by (rule order_trans [of _ 0]) simp_all
  then have "signed_take_bit 63 (uint n) = uint n"
    using True by (rule signed_take_bit_int_eq_self)
  then show ?thesis
    by (simp add: sint_uint)
next
  case False
  then have a: "signed_take_bit 63 (uint n) \<le> uint n - 2 ^ Suc 63"
    by (intro signed_take_bit_int_less_eq) simp
  have b: "uint n < 2 ^ 64"
    using uint_bounded [of n] by simp
  have c: "sint n = signed_take_bit 63 (uint n)"
    by (simp add: sint_uint)
  have "signed_take_bit 63 (uint n) \<le> uint n - 2 ^ 64"
    using a by simp
  then have "sint n < 0"
    unfolding c using b by linarith
  with assms show ?thesis by linarith
qed

lemma sint_small_of_nat:
  assumes "k < 2 ^ 63"
  shows "sint (word_of_nat k :: 64 word) = int k"
  using assms by (simp add: signed_of_nat signed_take_bit_int_eq_self)

lemma draw_in_range:
  fixes n :: "64 word"
  assumes "0 <s n"
  shows "0 \<le>s (word_of_nat (x mod unat n) :: 64 word) \<and> (word_of_nat (x mod unat n) :: 64 word) <s n"
proof -
  have pos: "0 < sint n"
    using assms by (simp add: word_sless_alt)
  then have u: "sint n = int (unat n)"
    using sint_nonneg_uint [of n] by simp
  have lt: "x mod unat n < unat n"
    using pos u by (intro mod_less_divisor) linarith
  have "sint n < 2 ^ 63"
    using sint_lt [of n] by simp
  then have "int (x mod unat n) < 2 ^ 63"
    using lt u by linarith
  then have "x mod unat n < 2 ^ 63"
    by (simp only: of_nat_less_iff [symmetric, where ?'a = int] of_nat_power of_nat_numeral)
  then have v: "sint (word_of_nat (x mod unat n) :: 64 word) = int (x mod unat n)"
    by (rule sint_small_of_nat)
  have "int (x mod unat n) < sint n"
    using lt u by linarith
  then show ?thesis
    unfolding word_sle_eq word_sless_alt v by simp
qed

lemma sint_diff_nonneg:
  fixes mn mx :: "64 word"
  assumes "0 \<le>s mn" "mn <s mx"
  shows "sint (mx - mn) = sint mx - sint mn"
  using assms sint_lt [of mx] sint_ge [of mn]
  by (simp add: word_sle_eq word_sless_alt sint_word_ariths signed_take_bit_int_eq_self)

lemma diff_pos:
  fixes mn mx :: "64 word"
  assumes "0 \<le>s mn" "mn <s mx"
  shows "0 <s mx - mn"
  using assms sint_diff_nonneg [OF assms] by (simp add: word_sle_eq word_sless_alt)

lemma sum_in_range:
  fixes mn mx v :: "64 word"
  assumes "0 \<le>s mn" "mn <s mx" "0 \<le>s v" "v <s mx - mn"
  shows "mn \<le>s mn + v \<and> mn + v <s mx"
proof -
  have d: "sint (mx - mn) = sint mx - sint mn"
    using assms(1,2) by (rule sint_diff_nonneg)
  have "sint (mn + v) = sint mn + sint v"
    using assms d sint_lt [of mx] sint_ge [of mn]
    by (simp add: word_sle_eq word_sless_alt sint_word_ariths signed_take_bit_int_eq_self)
  then show ?thesis
    using assms d by (simp add: word_sle_eq word_sless_alt)
qed

section \<open>The accumulated validation errors\<close>

lemma AppendAll_plain: "list_all plain es \<Longrightarrow> AppendAll errs es = errs @ es"
proof (induction es arbitrary: errs)
  case Nil
  then show ?case by (simp add: AppendAll_def)
next
  case (Cons e es)
  then have "components e = [e]"
    by (cases e) simp_all
  with Cons show ?case
    by (simp add: AppendAll_def Append_def)
qed

lemma Stack_errors:
  "\<exists>new. errors (Stack n all r) = errors r @ new \<and> list_all plain new
          \<and> length new = violations (CallStack n all)"
  by (simp add: Stack_def)

lemma MaxAttemptTimes_errors:
  "\<exists>new. errors (MaxAttemptTimes n r) = errors r @ new \<and> list_all plain new
          \<and> length new = violations (CallMaxAttemptTimes n)"
  by (simp add: MaxAttemptTimes_def)

lemma MaxDelay_errors:
  "\<exists>new. errors (MaxDelay d r) = errors r @ new \<and> list_all plain new
          \<and> length new = violations (CallMaxDelay d)"
  by (simp add: MaxDelay_def word_sle_eq)

lemma WaitFixed_errors:
  "\<exists>new. errors (WaitFixed d r) = errors r @ new \<and> list_all plain new
          \<and> length new = violations (CallWaitFixed d)"
  by (simp add: WaitFixed_def word_sle_eq)

lemma WaitRandom_errors:
  "\<exists>new. errors (WaitRandom mn mx r) = errors r @ new \<and> list_all plain new
          \<and> length new = violations (CallWaitRandom mn mx)"
  by (simp add: WaitRandom_def word_sle_eq word_sless_alt)

lemma Function_Value_errors:
  assumes "Function (Value ty body site) r = Inr r'"
  shows "errors r' = errors r @
           (if Kind ty \<noteq> Func
            then [Errorf (''expected type '' @ kind_String Func @ '' but get '' @ kind_String (Kind ty))]
            else (if NumIn ty \<noteq> 0 then [Errorf (''expected 0 inputs but get '' @ decimal (NumIn ty))] else [])
               @ (if NumOut ty > 0 \<and> \<not> (Out ty ! (NumOut ty - 1))
                  then [Errorf ''expected 0 output or last output implements error interface'']
                  else []))"
proof (cases "Kind ty = Func")
  case False
  with assms show ?thesis by (auto simp: Function_def)
next
  case True
  show ?thesis
  proof (cases "NumIn ty = 0")
    case n: True
    show ?thesis
      using assms True n
      by (cases "NumOut ty > 0 \<and> \<not> (Out ty ! (NumOut ty - 1))") (auto simp: Function_def Let_def)
  next
    case n: False
    show ?thesis
      using assms True n
      by (cases "NumOut ty > 0 \<and> \<not> (Out ty ! (NumOut ty - 1))") (auto simp: Function_def Let_def)
  qed
qed

lemma Function_errors:
  assumes "Function i r = Inr r'"
  shows "\<exists>new. errors r' = errors r @ new \<and> list_all plain new
          \<and> length new = violations (CallFunction i)"
proof (cases i)
  case NilInterface
  with assms show ?thesis by (simp add: Function_def)
next
  case (Value ty body site)
  have "Out ty \<noteq> [] \<Longrightarrow> last (Out ty) = Out ty ! (length (Out ty) - 1)"
    by (rule last_conv_nth)
  then show ?thesis
    using Function_Value_errors [of ty body site r r'] assms Value
    by (auto simp: NumOut_def)
qed

lemma apply_call_errors:
  assumes "apply_call c r = Inr r'"
  shows "\<exists>new. errors r' = errors r @ new \<and> list_all plain new \<and> length new = violations c"
proof (cases c)
  case (CallStack n all)
  with assms Stack_errors [of n all r] show ?thesis by auto
next
  case (CallMaxAttemptTimes n)
  with assms MaxAttemptTimes_errors [of n r] show ?thesis by auto
next
  case (CallMaxDelay d)
  with assms MaxDelay_errors [of d r] show ?thesis by auto
next
  case (CallWaitFixed d)
  with assms WaitFixed_errors [of d r] show ?thesis by auto
next
  case (CallWaitRandom mn mx)
  with assms WaitRandom_errors [of mn mx r] show ?thesis by auto
next
  case (CallFunction i)
  with assms Function_errors [of i r r'] show ?thesis by auto
qed

lemma chain_errors:
  assumes "chain cs r = Inr r'"
  shows "\<exists>new. errors r' = errors r @ new \<and> list_all plain new
          \<and> length new = sum_list (map violations cs)"
  using assms
proof (induction cs arbitrary: r)
  case Nil
  then show ?case by simp
next
  case (Cons c cs)
  then obtain r1 where c: "apply_call c r = Inr r1" and cs: "chain cs r1 = Inr r'"
    by (auto split: sum.splits)
  from apply_call_errors [OF c] obtain n1 where
    n1: "errors r1 = errors r @ n1" "list_all plain n1" "length n1 = violations c"
    by blast
  from Cons.IH [OF cs] obtain n2 where
    n2: "errors r' = errors r1 @ n2" "list_all plain n2" "length n2 = sum_list (map violations cs)"
    by blast
  have "errors r' = errors r @ (n1 @ n2) \<and> list_all plain (n1 @ n2)
        \<and> length (n1 @ n2) = sum_list (map violations (c # cs))"
    using n1 n2 by simp
  then show ?case by blast
qed

lemma New_errors: "errors New = []"
  by (simp add: New_def)

lemma chain_New_plain:
  assumes "chain cs New = Inr r"
  shows "list_all plain (errors r)" and "length (errors r) = sum_list (map violations cs)"
  using chain_errors [OF assms] by (auto simp: New_errors)

lemma Try_invalid:
  assumes "list_all plain (errors r)" and "errors r \<noteq> []"
  shows "Try r sched w = Returned (Some (MultiError (errors r))) w"
  using assms by (simp add: Try_def AppendAll_plain ErrorOrNil_def)

section \<open>Accepted configurations are valid\<close>

lemma safe_default: "safe (func New)"
  by (simp add: safe_def New_def)

lemma safe_wrapRecoverFunc: "safe (wrapRecoverFunc g)"
  unfolding safe_def
proof (intro allI impI)
  fix stk :: int and allg s
  assume "0 \<le> stk"
  obtain out s' where g: "g s = (out, s')"
    by (cases "g s")
  show "\<exists>e s'. wrapRecoverFunc g stk allg s = (Inr e, s')"
  proof (cases out)
    case (Returns err)
    with g show ?thesis by (simp add: wrapRecoverFunc_def)
  next
    case (Panics v tr)
    with g \<open>0 \<le> stk\<close> show ?thesis
      by (cases v) (simp_all add: wrapRecoverFunc_def)
  qed
qed

lemma valid_New: "valid New"
  using safe_default by (simp add: valid_def New_def defaultStackSize_def defaultMaxAttemptTimes_def)

lemma valid_Stack:
  "valid r \<Longrightarrow> errors (Stack n all r) = [] \<Longrightarrow> valid (Stack n all r)"
  by (auto simp: valid_def Stack_def split: if_splits)

lemma valid_MaxAttemptTimes:
  "valid r \<Longrightarrow> errors (MaxAttemptTimes n r) = [] \<Longrightarrow> valid (MaxAttemptTimes n r)"
  by (auto simp: valid_def MaxAttemptTimes_def split: if_splits)

lemma valid_MaxDelay:
  "valid r \<Longrightarrow> errors (MaxDelay d r) = [] \<Longrightarrow> valid (MaxDelay d r)"
  by (auto simp: valid_def MaxDelay_def word_sle_eq split: if_splits)

lemma valid_WaitFixed:
  "valid r \<Longrightarrow> errors (WaitFixed d r) = [] \<Longrightarrow> valid (WaitFixed d r)"
  by (auto simp: valid_def WaitFixed_def word_sle_eq split: if_splits)

lemma valid_WaitRandom:
  "valid r \<Longrightarrow> errors (WaitRandom mn mx r) = [] \<Longrightarrow> valid (WaitRandom mn mx r)"
  by (auto simp: valid_def WaitRandom_def Let_def word_sle_eq word_sless_alt split: if_splits)

lemma valid_Function:
  assumes "valid r" and "Function i r = Inr r'" and "errors r' = []"
  shows "valid r'"
proof (cases i)
  case NilInterface
  with assms show ?thesis by (simp add: Function_def)
next
  case (Value ty body site)
  from Function_Value_errors [of ty body site r r'] assms Value
  have k: "Kind ty = Func" and n: "NumIn ty = 0"
    and o: "(NumOut ty > 0 \<and> \<not> (Out ty ! (NumOut ty - 1))) = False"
    by (auto split: if_splits)
  have "Function i r = Inr (r\<lparr>func := wrapRecoverFunc (if NumOut ty = 0 then closure0 i else closureN i)\<rparr>)"
    unfolding Value Function_def by (simp only: TypeOf.simps option.case k n o Let_def simp_thms if_False if_True)
  then have "r' = r\<lparr>func := wrapRecoverFunc (if NumOut ty = 0 then closure0 i else closureN i)\<rparr>"
    using assms(2) by simp
  with assms(1) show ?thesis
    by (simp add: valid_def safe_wrapRecoverFunc)
qed

lemma valid_apply_call:
  assumes "valid r" and "apply_call c r = Inr r'" and "errors r' = []"
  shows "valid r'"
proof (cases c)
  case (CallStack n all)
  with assms valid_Stack [of r n all] show ?thesis by auto
next
  case (CallMaxAttemptTimes n)
  with assms valid_MaxAttemptTimes [of r n] show ?thesis by auto
next
  case (CallMaxDelay d)
  with assms valid_MaxDelay [of r d] show ?thesis by auto
next
  case (CallWaitFixed d)
  with assms valid_WaitFixed [of r d] show ?thesis by auto
next
  case (CallWaitRandom mn mx)
  with assms valid_WaitRandom [of r mn mx] show ?thesis by auto
next
  case (CallFunction i)
  with assms valid_Function [of r i r'] show ?thesis by auto
qed

lemma valid_chain:
  assumes "chain cs r = Inr r'" and "valid r" and "errors r' = []"
  shows "valid r'"
  using assms
proof (induction cs arbitrary: r)
  case Nil
  then show ?case by simp
next
  case (Cons c cs)
  then obtain r1 where c: "apply_call c r = Inr r1" and cs: "chain cs r1 = Inr r'"
    by (auto split: sum.splits)
  from chain_errors [OF cs] Cons.prems(3) have "errors r1 = []"
    by auto
  with Cons.prems(2) c have "valid r1"
    by (rule valid_apply_call)
  with cs show ?case
    using Cons.prems(3) by (rule Cons.IH)
qed

lemma accepted_valid:
  assumes "chain cs New = Inr r" and "errors r = []"
  shows "valid r"
  using assms(1) valid_New assms(2) by (rule valid_chain)

section \<open>One attempt\<close>

lemma wait_fixed:
  assumes "0 <s waitFixed r"
  shows "wait r w = Inr (sleep (waitFixed r) w)"
  using assms by (simp add: wait_def Let_def word_sle_eq word_sless_alt)

lemma wait_none:
  assumes "\<not> waitRandomMin r <s waitRandomMax r"
  shows "wait r w = Inr (sleep (waitFixed r) w)"
  using assms by (simp add: wait_def Let_def)

lemma wait_random:
  assumes "\<not> 0 <s waitFixed r" and "waitRandomMin r <s waitRandomMax r"
    and "0 \<le>s waitRandomMin r"
  shows "wait r w =
           Inr (sleep (waitRandomMin r
                       + word_of_nat (randsrc w (randpos w) mod unat (waitRandomMax r - waitRandomMin r)))
                  (w\<lparr>randpos := randpos w + 1\<rparr>))"
proof -
  have "0 <s waitRandomMax r - waitRandomMin r"
    using assms(3,2) by (rule diff_pos)
  then have "\<not> waitRandomMax r - waitRandomMin r \<le>s 0"
    by (simp add: word_sle_eq word_sless_alt)
  moreover have "waitFixed r \<le>s 0"
    using assms(1) by (simp add: word_sle_eq word_sless_alt)
  ultimately show ?thesis
    using assms(2) by (simp add: wait_def Let_def Int63n_def)
qed

lemma wait_valid:
  assumes "valid r"
  shows "\<exists>w'. wait r w = Inr w' \<and> invoked w' = invoked w \<and> opstate w' = opstate w
              \<and> length (slept w') = Suc (length (slept w))"
proof (cases "\<not> 0 <s waitFixed r \<and> waitRandomMin r <s waitRandomMax r")
  case True
  moreover have "0 \<le>s waitRandomMin r"
    using assms by (simp add: valid_def)
  ultimately show ?thesis
    using wait_random [of r w] by (simp add: sleep_def)
next
  case False
  then show ?thesis
    using wait_fixed [of r w] wait_none [of r w] by (auto simp: sleep_def)
qed

lemma call_f_valid:
  assumes "valid r"
  shows "\<exists>e w'. call_f r w = (Inr e, w') \<and> invoked w' = Suc (invoked w)
                \<and> slept w' = slept w"
proof -
  from assms have "safe (func r)" and "0 \<le> stackSize r"
    by (simp_all add: valid_def)
  then obtain e s' where "func r (stackSize r) (allGoroutines r) (opstate w) = (Inr e, s')"
    unfolding safe_def by blast
  then show ?thesis
    by (simp add: call_f_def)
qed

lemma call_f_effect:
  assumes "func r (stackSize r) (allGoroutines r) (opstate w) = (res, s')"
  shows "call_f r w = (res, w\<lparr>opstate := s', invoked := invoked w + 1\<rparr>)"
  using assms by (simp add: call_f_def)

lemma wait_opstate:
  assumes "valid r"
  obtains w' where "wait r w = Inr w'" and "invoked w' = invoked w" and "opstate w' = opstate w"
    and "length (slept w') = Suc (length (slept w))"
  using wait_valid [OF assms, of w] by blast

section \<open>The loop without a deadline\<close>

lemma tryLoop_zero: "tryLoop r 0 errs w = Returned (ErrorOrNil errs) w"
  by (simp add: tryLoop.simps)

lemma tryLoop_success:
  assumes "0 < m" and "call_f r w = (Inr None, w')"
  shows "tryLoop r m errs w = Returned None w'"
  using assms by (simp add: tryLoop.simps [of r m])

lemma tryLoop_failure:
  assumes "0 < m" and "call_f r w = (Inr (Some e), w1)" and "wait r w1 = Inr w2"
  shows "tryLoop r m errs w = tryLoop r (m - 1) (errs @ components e) w2"
  using assms by (simp add: tryLoop.simps [of r m] Append_def)

lemma tryLoop_exhausts:
  assumes "valid r" and "results r n (opstate w) = map failure es"
  shows "\<exists>w'. tryLoop r (int n) errs w = Returned (ErrorOrNil (errs @ concat (map components es))) w'
              \<and> invoked w' = invoked w + n \<and> length (slept w') = length (slept w) + n"
  using assms(2)
proof (induction n arbitrary: w errs es)
  case 0
  then show ?case by (simp add: tryLoop_zero)
next
  case (Suc n)
  obtain res s1 where f: "func r (stackSize r) (allGoroutines r) (opstate w) = (res, s1)"
    by (cases "func r (stackSize r) (allGoroutines r) (opstate w)")
  with Suc.prems obtain e es' where es: "es = e # es'" and res: "res = failure e"
    and rest: "results r n s1 = map failure es'"
    by (cases es) auto
  let ?w1 = "w\<lparr>opstate := s1, invoked := invoked w + 1\<rparr>"
  have c: "call_f r w = (Inr (Some e), ?w1)"
    using call_f_effect [OF f] res by (simp add: failure_def)
  obtain w2 where w2: "wait r ?w1 = Inr w2" "invoked w2 = invoked ?w1" "opstate w2 = opstate ?w1"
    "length (slept w2) = Suc (length (slept ?w1))"
    using wait_opstate [OF assms(1), of ?w1] by blast
  have "results r n (opstate w2) = map failure es'"
    using rest w2(3) by simp
  from Suc.IH [OF this, of "errs @ components e"] obtain w' where
    w': "tryLoop r (int n) (errs @ components e) w2
           = Returned (ErrorOrNil ((errs @ components e) @ concat (map components es'))) w'"
      "invoked w' = invoked w2 + n" "length (slept w') = length (slept w2) + n"
    by blast
  have "tryLoop r (int (Suc n)) errs w = tryLoop r (int (Suc n) - 1) (errs @ components e) w2"
    using c w2(1) by (intro tryLoop_failure) simp_all
  then have "tryLoop r (int (Suc n)) errs w
               = Returned (ErrorOrNil (errs @ concat (map components es))) w'"
    using w'(1) es by simp
  moreover have "invoked w' = invoked w + Suc n" "length (slept w') = length (slept w) + Suc n"
    using w'(2,3) w2(2,4) by simp_all
  ultimately show ?case by blast
qed

lemma tryLoop_succeeds:
  assumes "valid r"
    and "results r (Suc (length es)) (opstate w) = map failure es @ [Inr None]"
    and "int (length es) < m"
  shows "\<exists>w'. tryLoop r m errs w = Returned None w'
              \<and> invoked w' = invoked w + length es + 1
              \<and> length (slept w') = length (slept w) + length es"
  using assms(2,3)
proof (induction es arbitrary: w errs m)
  case Nil
  obtain res s1 where f: "func r (stackSize r) (allGoroutines r) (opstate w) = (res, s1)"
    by (cases "func r (stackSize r) (allGoroutines r) (opstate w)")
  with Nil.prems(1) have "res = Inr None"
    by simp
  with call_f_effect [OF f] have "call_f r w = (Inr None, w\<lparr>opstate := s1, invoked := invoked w + 1\<rparr>)"
    by simp
  with Nil.prems(2) have "tryLoop r m errs w = Returned None (w\<lparr>opstate := s1, invoked := invoked w + 1\<rparr>)"
    by (intro tryLoop_success) simp_all
  then show ?case by simp
next
  case (Cons e es)
  obtain res s1 where f: "func r (stackSize r) (allGoroutines r) (opstate w) = (res, s1)"
    by (cases "func r (stackSize r) (allGoroutines r) (opstate w)")
  with Cons.prems(1) have res: "res = failure e"
    and rest: "results r (Suc (length es)) s1 = map failure es @ [Inr None]"
    by simp_all
  let ?w1 = "w\<lparr>opstate := s1, invoked := invoked w + 1\<rparr>"
  have c: "call_f r w = (Inr (Some e), ?w1)"
    using call_f_effect [OF f] res by (simp add: failure_def)
  obtain w2 where w2: "wait r ?w1 = Inr w2" "invoked w2 = invoked ?w1" "opstate w2 = opstate ?w1"
    "length (slept w2) = Suc (length (slept ?w1))"
    using wait_opstate [OF assms(1), of ?w1] by blast
  have "results r (Suc (length es)) (opstate w2) = map failure es @ [Inr None]"
    using rest w2(3) by simp
  moreover have "int (length es) < m - 1"
    using Cons.prems(2) by simp
  ultimately obtain w' where
    w': "tryLoop r (m - 1) (errs @ components e) w2 = Returned None w'"
      "invoked w' = invoked w2 + length es + 1" "length (slept w') = length (slept w2) + length es"
    using Cons.IH [of w2 "m - 1" "errs @ components e"] by blast
  have "tryLoop r m errs w = tryLoop r (m - 1) (errs @ components e) w2"
    using c w2(1) Cons.prems(2) by (intro tryLoop_failure) simp_all
  then have "tryLoop r m errs w = Returned None w'"
    using w'(1) by simp
  moreover have "invoked w' = invoked w + length (e # es) + 1"
    "length (slept w') = length (slept w) + length (e # es)"
    using w'(2,3) w2(2,4) by simp_all
  ultimately show ?case by blast
qed

lemma always_fails_results:
  assumes "always_fails r"
  shows "\<exists>es. results r n s = map failure es \<and> length es = n"
proof (induction n arbitrary: s)
  case 0
  then show ?case by simp
next
  case (Suc n)
  from assms obtain e s1 where f: "func r (stackSize r) (allGoroutines r) s = (failure e, s1)"
    unfolding always_fails_def by blast
  from Suc [of s1] obtain es where "results r n s1 = map failure es" "length es = n"
    by blast
  with f have "results r (Suc n) s = map failure (e # es) \<and> length (e # es) = Suc n"
    by simp
  then show ?case by blast
qed

lemma plain_components: "list_all plain es \<Longrightarrow> concat (map components es) = es"
proof (induction es)
  case Nil
  then show ?case by simp
next
  case (Cons e es)
  then have "components e = [e]"
    by (cases e) simp_all
  with Cons show ?case by simp
qed

lemma Try_accepted_no_deadline:
  assumes "errors r = []" and "\<not> 0 <s maxDelay r"
  shows "Try r sched w = tryLoop r (maxAttemptTimes r) [] w"
  using assms by (simp add: Try_def AppendAll_def ErrorOrNil_def tryWithoutTimeout_def)

section \<open>Evaluating the examples\<close>

text \<open>The equations that unfold a configuration, a run and a schedule on given inputs.\<close>

lemmas config_defs = configured_def New_def Stack_def MaxAttemptTimes_def MaxDelay_def WaitFixed_def
  WaitRandom_def Function_def NumOut_def func_error_def func_plain_def Let_def
  defaultStackSize_def defaultMaxAttemptTimes_def word_sle_eq word_sless_alt

lemmas run_defs = Try_def AppendAll_def Append_def ErrorOrNil_def tryWithoutTimeout_def
  tryLoop.simps call_f_def wait_def sleep_def Int63n_def wrapRecoverFunc_def closure0_def
  closureN_def Call_def runtime_Stack_def w0_def

lemmas race_defs = tryWithTimeout_def start_def step_def running_def

lemma decimal_digit: "n < 10 \<Longrightarrow> decimal n = [digit n]"
  by (simp add: decimal.simps)

section \<open>The repository's tests\<close>

text \<open>
  The model gives what \<^verbatim>\<open>retrying_test.go\<close> expects of the program. The counts of
  validation errors of \<^verbatim>\<open>TestStack\<close>, \<^verbatim>\<open>TestMaxAttemptTimes\<close>, \<^verbatim>\<open>TestMaxDelay\<close>,
  \<^verbatim>\<open>TestWaitFixed\<close>, \<^verbatim>\<open>TestWaitRandom\<close> and \<^verbatim>\<open>TestFunction\<close>:
\<close>

lemma test_setters:
  "length (errors (configured [CallStack (- 1) False] :: nat Retryable)) = 1"
  "length (errors (configured [CallMaxAttemptTimes (- 1)] :: nat Retryable)) = 1"
  "length (errors (configured [CallMaxDelay 0] :: nat Retryable)) = 1"
  "length (errors (configured [CallWaitFixed 0] :: nat Retryable)) = 1"
  "length (errors (configured [CallWaitRandom (- 1) 1000000000] :: nat Retryable)) = 1"
  "length (errors (configured [CallWaitRandom 60000000000 1000000000] :: nat Retryable)) = 1"
  "length (errors (configured [CallWaitRandom (- 1) (- 1)] :: nat Retryable)) = 2"
  "length (errors (configured [CallFunction (Value int_type does_nothing trace0)])) = 1"
  "length (errors (configured [CallFunction (Value func_int_int does_nothing trace0)])) = 2"
  by (simp_all add: config_defs int_type_def func_int_int_def)

text \<open>
  The cases of \<^verbatim>\<open>TestTry\<close> that run without a deadline: a validation error stops the
  run; no function gives the text of \<^verbatim>\<open>multierror.Append(nil, ErrNoFunctionSpecified)\<close>;
  a function that does nothing succeeds; success comes after two panics, and after
  two errors with random waits between one and two seconds.
\<close>

lemma test_Try:
  "Try (configured [CallFunction (Value func_int does_nothing trace0)]) [] w5
     = Returned (Some (MultiError [Errorf ''expected 0 inputs but get 1''])) w5"
  "Try (configured []) [] w5 = Returned (Some (MultiError [ErrNoFunctionSpecified])) (w5\<lparr>invoked := 1, slept := [0]\<rparr>)"
  "Try (configured [CallFunction (Value func_plain does_nothing trace0)]) [] w5
     = Returned None (w5\<lparr>invoked := 1\<rparr>)"
  "Try (configured [CallMaxAttemptTimes 5, CallFunction (Value func_plain after_two_panics trace0)]) [] w5
     = Returned None (w5\<lparr>opstate := 2, invoked := 3, slept := [0, 0]\<rparr>)"
  "Try (configured [CallMaxAttemptTimes 5, CallFunction (Value func_error after_two_errors trace0),
                    CallWaitRandom 1000000000 2000000000]) [] w5
     = Returned None (w5\<lparr>opstate := 2, invoked := 3, slept := [1000000003, 1000000010], randpos := 2\<rparr>)"
  by (simp_all add: config_defs run_defs func_int_def does_nothing_def after_two_panics_def
      after_two_errors_def w5_def decimal_digit)

text \<open>
  Its cases with a deadline: the timer fires while the operation sleeps for a
  minute; the operation succeeds before the timer fires; it panics before the
  timer fires, and the error is not \<^verbatim>\<open>nil\<close> in either order of the coordinator's
  check and the producer's decrement.
\<close>

lemma test_Try_deadline:
  "Try (configured [CallMaxDelay 1000000000, CallFunction (Value func_plain does_nothing trace0)])
     [TimerFires, Timeout] w5
     = Returned (Some ErrTimeout) w5"
  "Try (configured [CallMaxDelay 60000000000, CallFunction (Value func_plain does_nothing trace0)])
     [Producer, Deliver, Coordinator] w5
     = Returned None (w5\<lparr>invoked := 1\<rparr>)"
  "Try (configured [CallMaxDelay 60000000000, CallStack 4 False,
                    CallFunction (Value func_plain always_panics trace0)])
     [Producer, Deliver, Producer, Producer, Coordinator] w5
     = Returned (Some (MultiError [Errorf (''DLLM'' @ [newline] @ ''goro'' @ [newline])]))
         (w5\<lparr>invoked := 1, slept := [0]\<rparr>)"
  "Try (configured [CallMaxDelay 60000000000, CallStack 4 False,
                    CallFunction (Value func_plain always_panics trace0)])
     [Producer, Deliver, Coordinator, Producer, Producer, Producer, TimerFires, Timeout] w5
     = Returned (Some ErrTimeout) (w5\<lparr>invoked := 1, slept := [0]\<rparr>)"
  by (simp_all add: config_defs run_defs race_defs does_nothing_def always_panics_def trace0_def w5_def)

section \<open>Entry validation\<close>

text \<open>
  Claim C5. A chain of configuration calls on a fresh Retryable in which some value
  breaks a rule of the policy (a non-positive attempt count, deadline, fixed wait or
  buffer size, a negative random bound, random bounds that are not in order, an
  operation of the wrong shape) records exactly one error for each rule broken, and
  \<^verbatim>\<open>Try\<close> then returns the composite of exactly these errors and leaves the world
  as it was: the operation is not invoked and nothing sleeps, with or without a
  deadline.
\<close>

theorem invalid_configuration:
  assumes "chain cs New = Inr r" and "0 < sum_list (map violations cs)"
  shows "length (errors r) = sum_list (map violations cs)
         \<and> Try r sched w = Returned (Some (MultiError (errors r))) w"
proof -
  from chain_New_plain [OF assms(1)]
  have p: "list_all plain (errors r)" and l: "length (errors r) = sum_list (map violations cs)"
    by simp_all
  from assms(2) have "0 < length (errors r)"
    unfolding l .
  then have "errors r \<noteq> []"
    by simp
  with p have "Try r sched w = Returned (Some (MultiError (errors r))) w"
    by (rule Try_invalid)
  with l show ?thesis by simp
qed

theorem invalid_configuration_witness:
  "length (errors (configured [CallFunction (Value func_error op_fails trace0), CallMaxAttemptTimes 0])) = 1
   \<and> Try (configured [CallFunction (Value func_error op_fails trace0), CallMaxAttemptTimes 0]) [] w0
       = Returned (Some (MultiError [Errorf ''max attempt times must be positive integer''])) w0"
  using invalid_configuration
    [of "[CallFunction (Value func_error op_fails trace0), CallMaxAttemptTimes 0]"
        "configured [CallFunction (Value func_error op_fails trace0), CallMaxAttemptTimes 0]" "[]" w0]
  by (simp add: config_defs)

text \<open>
  Claim C9. The list of validation errors only grows: whatever calls follow, the
  list they leave is the earlier list with further entries behind it. So once a
  chain on a fresh Retryable has recorded an error, \<^verbatim>\<open>Try\<close> after any further calls,
  valid ones for the same option among them, returns a non-nil error, the composite
  of the list, and leaves the world as it was: the operation is not invoked.
\<close>

theorem validation_errors_persist:
  assumes "chain cs New = Inr r" and "errors r \<noteq> []" and "chain cs' r = Inr r'"
  shows "(\<exists>new. errors r' = errors r @ new)
         \<and> Try r' sched w = Returned (Some (MultiError (errors r'))) w"
proof -
  from chain_errors [OF assms(3)] obtain new where
    new: "errors r' = errors r @ new" "list_all plain new"
    by blast
  from chain_New_plain(1) [OF assms(1)] new have "list_all plain (errors r')"
    by simp
  moreover from new(1) assms(2) have "errors r' \<noteq> []"
    by simp
  ultimately have "Try r' sched w = Returned (Some (MultiError (errors r'))) w"
    by (rule Try_invalid)
  with new(1) show ?thesis by blast
qed

theorem validation_errors_persist_witness:
  "Try (configured [CallMaxAttemptTimes (- 1), CallMaxAttemptTimes 5,
                    CallFunction (Value func_error op_third trace0)]) [] w0
     = Returned (Some (MultiError [Errorf ''max attempt times must be positive integer''])) w0"
  using validation_errors_persist
    [of "[CallMaxAttemptTimes (- 1)]" "configured [CallMaxAttemptTimes (- 1)]"
        "[CallMaxAttemptTimes 5, CallFunction (Value func_error op_third trace0)]"
        "configured [CallMaxAttemptTimes (- 1), CallMaxAttemptTimes 5,
                     CallFunction (Value func_error op_third trace0)]" "[]" w0]
  by (simp add: config_defs)

lemma chain_append:
  "chain (cs @ cs') r = (case chain cs r of Inl p \<Rightarrow> Inl p | Inr r' \<Rightarrow> chain cs' r')"
  by (induction cs arbitrary: r) (simp_all split: sum.splits)

text \<open>
  Claim C10. \<^verbatim>\<open>Function(nil)\<close> panics in the setter itself, on the method call on the
  nil type. Wherever it stands in a chain whose earlier calls have returned, the
  chain ends in this panic whatever calls follow: nothing recovers it, no Retryable
  comes back, and so no validation error is recorded for it.
\<close>

theorem Function_nil_panics:
  assumes "chain cs r = Inr r1"
  shows "Function NilInterface r1 = Inl nil_dereference
         \<and> chain (cs @ CallFunction NilInterface # cs') r = Inl nil_dereference
         \<and> (\<forall>r2. chain (cs @ CallFunction NilInterface # cs') r \<noteq> Inr r2)"
proof -
  have "Function NilInterface r1 = Inl nil_dereference"
    by (simp add: Function_def)
  then have "chain (cs @ CallFunction NilInterface # cs') r = Inl nil_dereference"
    using assms by (simp add: chain_append)
  then show ?thesis
    using \<open>Function NilInterface r1 = Inl nil_dereference\<close> by simp
qed

theorem Function_nil_panics_witness:
  "chain ([CallMaxAttemptTimes 0] @ CallFunction NilInterface # [CallMaxAttemptTimes 5]) (New :: nat Retryable)
     = Inl ''runtime error: invalid memory address or nil pointer dereference''"
proof -
  have "chain [CallMaxAttemptTimes 0] (New :: nat Retryable) = Inr (MaxAttemptTimes 0 New)"
    by simp
  from Function_nil_panics [OF this, of "[CallMaxAttemptTimes 5]"] show ?thesis
    by (simp add: nil_dereference_def)
qed

section \<open>The backoff delay\<close>

text \<open>
  Claim C3. A positive \<^verbatim>\<open>waitFixed\<close> is the delay, whatever the other fields hold.
  Otherwise, for a Retryable as the setters leave it with no validation error (the
  only ones on which \<^verbatim>\<open>Try\<close> computes a delay): with \<^verbatim>\<open>waitRandomMax > waitRandomMin\<close>
  the delay is \<^verbatim>\<open>waitRandomMin\<close> plus a number of \<open>[0, waitRandomMax - waitRandomMin)\<close>,
  the next draw of the random source, which each call moves on by one; and else the
  delay is zero.
\<close>

theorem wait_delay:
  "(0 <s waitFixed r \<longrightarrow> wait r w = Inr (sleep (waitFixed r) w))
   \<and> (chain cs New = Inr r \<and> errors r = [] \<and> \<not> 0 <s waitFixed r \<longrightarrow>
        (if waitRandomMin r <s waitRandomMax r
         then (let v = word_of_nat (randsrc w (randpos w) mod unat (waitRandomMax r - waitRandomMin r))
               in 0 \<le>s v \<and> v <s waitRandomMax r - waitRandomMin r
                  \<and> waitRandomMin r \<le>s waitRandomMin r + v
                  \<and> waitRandomMin r + v <s waitRandomMax r
                  \<and> wait r w = Inr (sleep (waitRandomMin r + v) (w\<lparr>randpos := randpos w + 1\<rparr>)))
         else wait r w = Inr (sleep 0 w)))"
proof (intro conjI impI)
  assume "0 <s waitFixed r"
  then show "wait r w = Inr (sleep (waitFixed r) w)"
    by (rule wait_fixed)
next
  assume a: "chain cs New = Inr r \<and> errors r = [] \<and> \<not> 0 <s waitFixed r"
  then have "valid r"
    using accepted_valid by blast
  then have f: "0 \<le>s waitFixed r" and m: "0 \<le>s waitRandomMin r"
    by (simp_all add: valid_def)
  from a f have z: "waitFixed r = 0"
    by (simp add: word_sle_eq word_sless_alt signed_eq_0_iff order_antisym)
  show "if waitRandomMin r <s waitRandomMax r
        then (let v = word_of_nat (randsrc w (randpos w) mod unat (waitRandomMax r - waitRandomMin r))
              in 0 \<le>s v \<and> v <s waitRandomMax r - waitRandomMin r
                 \<and> waitRandomMin r \<le>s waitRandomMin r + v
                 \<and> waitRandomMin r + v <s waitRandomMax r
                 \<and> wait r w = Inr (sleep (waitRandomMin r + v) (w\<lparr>randpos := randpos w + 1\<rparr>)))
        else wait r w = Inr (sleep 0 w)"
  proof (cases "waitRandomMin r <s waitRandomMax r")
    case True
    let ?v = "word_of_nat (randsrc w (randpos w) mod unat (waitRandomMax r - waitRandomMin r)) :: 64 word"
    have "0 <s waitRandomMax r - waitRandomMin r"
      using m True by (rule diff_pos)
    then have v: "0 \<le>s ?v \<and> ?v <s waitRandomMax r - waitRandomMin r"
      by (rule draw_in_range)
    then have "waitRandomMin r \<le>s waitRandomMin r + ?v \<and> waitRandomMin r + ?v <s waitRandomMax r"
      using m True by (intro sum_in_range) simp_all
    moreover have "wait r w = Inr (sleep (waitRandomMin r + ?v) (w\<lparr>randpos := randpos w + 1\<rparr>))"
      using a True m by (intro wait_random) simp_all
    ultimately show ?thesis
      using True v by (simp add: Let_def)
  next
    case False
    then show ?thesis
      using wait_none [of r w] z by simp
  qed
qed

theorem wait_delay_witness:
  "wait (configured [CallWaitRandom 5 10, CallWaitFixed 2]) w0 = Inr (sleep 2 w0)
   \<and> wait (configured [CallWaitRandom 5 10]) w0 = Inr (sleep 8 (w0\<lparr>randpos := 1\<rparr>))
   \<and> wait (configured []) w0 = Inr (sleep 0 w0)"
  using wait_delay [of "configured [CallWaitRandom 5 10, CallWaitFixed 2]" w0 "[]"]
    wait_delay [of "configured [CallWaitRandom 5 10]" w0 "[CallWaitRandom 5 10]"]
    wait_delay [of "configured []" w0 "[]"]
  by (simp add: config_defs w0_def)

section \<open>Running without a deadline\<close>

lemma chain_never_bound:
  assumes "chain cs r = Inr r'" and "never_bound cs"
  shows "func r' = func r"
  using assms
proof (induction cs arbitrary: r)
  case Nil
  then show ?case by simp
next
  case (Cons c cs)
  then obtain r1 where c: "apply_call c r = Inr r1" and cs: "chain cs r1 = Inr r'"
    by (auto split: sum.splits)
  from Cons.prems(2) have nf: "\<not> is_Function c" and nb: "never_bound cs"
    by (auto simp: never_bound_def split: if_splits)
  from nf c have "func r1 = func r"
    by (cases c)
      (auto simp: Stack_def MaxAttemptTimes_def MaxDelay_def WaitFixed_def WaitRandom_def Let_def)
  with Cons.IH [OF cs nb] show ?case by simp
qed

lemma results_default:
  assumes "func r = func New"
  shows "results r n s = map failure (replicate n ErrNoFunctionSpecified)"
  using assms by (induction n arbitrary: s) (simp_all add: New_def failure_def)

text \<open>
  Claim C2 as stated fails on the code. With no function bound, \<^verbatim>\<open>Try\<close> does not stop
  at the validation: with three attempts allowed it invokes the operation slot
  three times, sleeps after each, and returns a composite of three errors; with the
  default of one attempt it invokes the slot once.
\<close>

theorem unbound_counterexample:
  "Try (configured [CallMaxAttemptTimes 3]) [] w0
     = Returned (Some (MultiError [ErrNoFunctionSpecified, ErrNoFunctionSpecified, ErrNoFunctionSpecified]))
         (w0\<lparr>invoked := 3, slept := [0, 0, 0]\<rparr>)
   \<and> Try (configured []) [] w0
     = Returned (Some (MultiError [ErrNoFunctionSpecified])) (w0\<lparr>invoked := 1, slept := [0]\<rparr>)"
  by (simp add: config_defs run_defs)

text \<open>
  Claim C2, as amended. \<^verbatim>\<open>New\<close> fills the operation slot with an operation that
  returns \<^verbatim>\<open>ErrNoFunctionSpecified\<close>, and records no validation error for it. So
  when \<^verbatim>\<open>Function\<close> was never called, the other options are valid and there is no
  deadline, \<^verbatim>\<open>Try\<close> runs this operation like any other: it invokes it
  \<^verbatim>\<open>maxAttemptTimes\<close> times, waits after each, and returns the composite of that
  many copies of \<^verbatim>\<open>ErrNoFunctionSpecified\<close>.
\<close>

theorem unbound_runs_default:
  assumes "chain cs New = Inr r" and "never_bound cs" and "errors r = []"
    and "\<not> 0 <s maxDelay r"
  shows "\<exists>w'. Try r sched w
                = Returned (Some (MultiError (replicate (nat (maxAttemptTimes r)) ErrNoFunctionSpecified))) w'
              \<and> invoked w' = invoked w + nat (maxAttemptTimes r)
              \<and> length (slept w') = length (slept w) + nat (maxAttemptTimes r)"
proof -
  let ?n = "nat (maxAttemptTimes r)"
  have v: "valid r"
    using assms(1,3) by (rule accepted_valid)
  then have n: "int ?n = maxAttemptTimes r" and pos: "0 < ?n"
    by (simp_all add: valid_def)
  have "func r = func New"
    using assms(1,2) by (rule chain_never_bound)
  then have "results r ?n (opstate w) = map failure (replicate ?n ErrNoFunctionSpecified)"
    by (rule results_default)
  from tryLoop_exhausts [OF v this, of "[]"] obtain w' where
    w': "tryLoop r (int ?n) [] w
           = Returned (ErrorOrNil ([] @ concat (map components (replicate ?n ErrNoFunctionSpecified)))) w'"
      "invoked w' = invoked w + ?n" "length (slept w') = length (slept w) + ?n"
    by blast
  have "concat (map components (replicate ?n ErrNoFunctionSpecified)) = replicate ?n ErrNoFunctionSpecified"
    by (intro plain_components) (simp add: list_all_length)
  with w'(1) pos have "tryLoop r (int ?n) [] w
       = Returned (Some (MultiError (replicate ?n ErrNoFunctionSpecified))) w'"
    by (simp add: ErrorOrNil_def)
  then have "Try r sched w = Returned (Some (MultiError (replicate ?n ErrNoFunctionSpecified))) w'"
    using Try_accepted_no_deadline [OF assms(3,4), of sched w] n by simp
  with w'(2,3) show ?thesis by blast
qed

theorem unbound_runs_default_witness:
  "\<exists>w'. Try (configured [CallMaxAttemptTimes 2, CallWaitFixed 4]) [] w0
           = Returned (Some (MultiError [ErrNoFunctionSpecified, ErrNoFunctionSpecified])) w'
         \<and> invoked w' = 2 \<and> length (slept w') = 2"
  using unbound_runs_default
    [of "[CallMaxAttemptTimes 2, CallWaitFixed 4]" "configured [CallMaxAttemptTimes 2, CallWaitFixed 4]"
        "[]" w0]
  by (simp add: config_defs never_bound_def w0_def numeral_2_eq_2)

text \<open>
  Claim C6 as stated fails on the code. An operation that always returns a composite
  of two errors, run with one attempt allowed, gives a report of two components:
  \<^verbatim>\<open>multierror.Append\<close> flattens the failure into the report.
\<close>

theorem exhausted_counterexample:
  "maxAttemptTimes (configured [CallFunction (Value func_error op_composite trace0)]) = 1
   \<and> Try (configured [CallFunction (Value func_error op_composite trace0)]) [] w0
     = Returned (Some (MultiError [Errorf ''a'', Errorf ''b''])) (w0\<lparr>invoked := 1, slept := [0]\<rparr>)"
  by (simp add: config_defs run_defs op_composite_def)

text \<open>
  Claim C6, as amended. For a Retryable as the setters leave it with no validation
  error and no deadline, and an operation that fails whenever it is called:
  \<^verbatim>\<open>Try\<close> invokes it exactly \<^verbatim>\<open>maxAttemptTimes\<close> times and returns what
  \<^verbatim>\<open>multierror.Append\<close> made of the failures \<open>es\<close> of these attempts, taken in attempt
  order: a plain failure is one component, a failure that is itself a composite
  gives its own components instead. When every failure is plain, the report is the
  composite of exactly these \<^verbatim>\<open>maxAttemptTimes\<close> failures in attempt order, and its
  text lists their texts in that order.
\<close>

theorem exhausted_report:
  assumes "chain cs New = Inr r" and "errors r = []" and "\<not> 0 <s maxDelay r"
    and "always_fails r"
  shows "\<exists>es w'. results r (nat (maxAttemptTimes r)) (opstate w) = map failure es
           \<and> length es = nat (maxAttemptTimes r)
           \<and> Try r sched w = Returned (ErrorOrNil (concat (map components es))) w'
           \<and> invoked w' = invoked w + nat (maxAttemptTimes r)
           \<and> (list_all plain es \<longrightarrow>
                 Try r sched w = Returned (Some (MultiError es)) w'
                 \<and> Error (MultiError es) = ListFormatFunc (map Error es))"
proof -
  let ?n = "nat (maxAttemptTimes r)"
  have v: "valid r"
    using assms(1,2) by (rule accepted_valid)
  then have n: "int ?n = maxAttemptTimes r" and pos: "0 < ?n"
    by (simp_all add: valid_def)
  from always_fails_results [OF assms(4), of ?n "opstate w"] obtain es where
    es: "results r ?n (opstate w) = map failure es" "length es = ?n"
    by blast
  from tryLoop_exhausts [OF v es(1), of "[]"] obtain w' where
    w': "tryLoop r (int ?n) [] w = Returned (ErrorOrNil ([] @ concat (map components es))) w'"
      "invoked w' = invoked w + ?n"
    by blast
  have t: "Try r sched w = Returned (ErrorOrNil (concat (map components es))) w'"
    using Try_accepted_no_deadline [OF assms(2,3), of sched w] n w'(1) by simp
  have "list_all plain es \<longrightarrow>
          Try r sched w = Returned (Some (MultiError es)) w'
          \<and> Error (MultiError es) = ListFormatFunc (map Error es)"
  proof
    assume "list_all plain es"
    then have "concat (map components es) = es"
      by (rule plain_components)
    moreover have "es \<noteq> []"
      using es(2) pos by auto
    ultimately show "Try r sched w = Returned (Some (MultiError es)) w'
                     \<and> Error (MultiError es) = ListFormatFunc (map Error es)"
      using t by (simp add: ErrorOrNil_def)
  qed
  with es t w'(2) show ?thesis by blast
qed

lemma always_fails_op_fails:
  "always_fails (configured [CallMaxAttemptTimes 3, CallFunction (Value func_error op_fails trace0)])"
  by (simp add: always_fails_def config_defs wrapRecoverFunc_def closureN_def Call_def
      op_fails_def failure_def)

theorem exhausted_report_witness:
  "\<exists>w'. Try (configured [CallMaxAttemptTimes 3, CallFunction (Value func_error op_fails trace0)]) [] w0
           = Returned (Some (MultiError [Errorf ''failure 1'', Errorf ''failure 2'', Errorf ''failure 3''])) w'
         \<and> invoked w' = 3"
proof -
  let ?cs = "[CallMaxAttemptTimes 3, CallFunction (Value func_error op_fails trace0)]"
  let ?es = "[Errorf ''failure 1'', Errorf ''failure 2'', Errorf ''failure 3'']"
  have c: "chain ?cs New = Inr (configured ?cs)"
    by (simp add: config_defs)
  have e: "errors (configured ?cs) = []"
    by (simp add: config_defs)
  have d: "\<not> 0 <s maxDelay (configured ?cs)"
    by (simp add: config_defs)
  have n: "nat (maxAttemptTimes (configured ?cs)) = Suc (Suc (Suc 0))"
    by (simp add: config_defs)
  have r: "results (configured ?cs) (Suc (Suc (Suc 0))) (opstate w0) = map failure ?es"
    by (simp add: config_defs wrapRecoverFunc_def closureN_def Call_def w0_def op_fails_def
        failure_def decimal_digit)
  from exhausted_report [OF c e d always_fails_op_fails, of w0 "[]"] obtain es w' where
    es: "results (configured ?cs) (nat (maxAttemptTimes (configured ?cs))) (opstate w0) = map failure es"
    and t: "list_all plain es \<longrightarrow> Try (configured ?cs) [] w0 = Returned (Some (MultiError es)) w'
              \<and> Error (MultiError es) = ListFormatFunc (map Error es)"
    and i: "invoked w' = invoked w0 + nat (maxAttemptTimes (configured ?cs))"
    by auto
  from es r have "map failure es = map failure ?es"
    unfolding n by simp
  then have "es = ?es"
    by (simp add: failure_def map_eq_Cons_conv)
  with t i n show ?thesis
    by (auto simp: w0_def)
qed

lemma length_results: "length (results r n s) = n"
  by (induction n arbitrary: s) (simp_all split: prod.splits)

text \<open>
  Claim C7. For a Retryable as the setters leave it with no validation error and no
  deadline: when the first \<open>k\<close> calls of the operation give the failures \<open>es\<close> and
  then \<^verbatim>\<open>nil\<close>, so that attempt \<open>k\<close> is the first to succeed, and \<open>k\<close> is at most
  \<^verbatim>\<open>maxAttemptTimes\<close>, then \<^verbatim>\<open>Try\<close> returns \<^verbatim>\<open>nil\<close> after exactly \<open>k\<close> invocations and
  the \<open>k - 1\<close> waits between them: nothing of the failures is in the result, and
  no attempt follows the success.
\<close>

theorem success_on_attempt:
  assumes "chain cs New = Inr r" and "errors r = []" and "\<not> 0 <s maxDelay r"
    and "results r k (opstate w) = map failure es @ [Inr None]"
    and "int k \<le> maxAttemptTimes r"
  shows "\<exists>w'. Try r sched w = Returned None w'
              \<and> invoked w' = invoked w + k
              \<and> length (slept w') = length (slept w) + (k - 1)"
proof -
  have v: "valid r"
    using assms(1,2) by (rule accepted_valid)
  have "length (results r k (opstate w)) = length (map failure es @ [Inr None])"
    using assms(4) by simp
  then have k: "k = Suc (length es)"
    by (simp add: length_results)
  then have "results r (Suc (length es)) (opstate w) = map failure es @ [Inr None]"
    using assms(4) by simp
  moreover have "int (length es) < maxAttemptTimes r"
    using assms(5) k by simp
  ultimately obtain w' where
    "tryLoop r (maxAttemptTimes r) [] w = Returned None w'"
    "invoked w' = invoked w + length es + 1" "length (slept w') = length (slept w) + length es"
    using tryLoop_succeeds [OF v, of es w "maxAttemptTimes r" "[]"] by blast
  then have "Try r sched w = Returned None w' \<and> invoked w' = invoked w + k
             \<and> length (slept w') = length (slept w) + (k - 1)"
    using Try_accepted_no_deadline [OF assms(2,3), of sched w] k by simp
  then show ?thesis by blast
qed

theorem success_on_attempt_witness:
  "(\<exists>w'. Try (configured [CallMaxAttemptTimes 5, CallFunction (Value func_error op_third trace0)]) [] w0
            = Returned None w'
          \<and> invoked w' = 3 \<and> length (slept w') = 2)
   \<and> (\<exists>w'. Try (configured [CallMaxAttemptTimes 5, CallFunction (Value func_error op_third trace0)]) []
              (w0\<lparr>opstate := 2\<rparr>)
            = Returned None w'
          \<and> invoked w' = 1 \<and> length (slept w') = 0)"
proof -
  let ?cs = "[CallMaxAttemptTimes 5, CallFunction (Value func_error op_third trace0)]"
  have c: "chain ?cs New = Inr (configured ?cs)"
    by (simp add: config_defs)
  have e: "errors (configured ?cs) = []"
    by (simp add: config_defs)
  have d: "\<not> 0 <s maxDelay (configured ?cs)"
    by (simp add: config_defs)
  have m: "int (Suc (Suc (Suc 0))) \<le> maxAttemptTimes (configured ?cs)"
    "int (Suc 0) \<le> maxAttemptTimes (configured ?cs)"
    by (simp_all add: config_defs)
  have r3: "results (configured ?cs) (Suc (Suc (Suc 0))) (opstate w0)
              = map failure [Errorf ''failure 1'', Errorf ''failure 2''] @ [Inr None]"
    by (simp add: config_defs wrapRecoverFunc_def closureN_def Call_def w0_def op_third_def
        failure_def decimal_digit)
  have r1: "results (configured ?cs) (Suc 0) (opstate (w0\<lparr>opstate := 2\<rparr>)) = map failure [] @ [Inr None]"
    by (simp add: config_defs wrapRecoverFunc_def closureN_def Call_def w0_def op_third_def)
  show ?thesis
    using success_on_attempt [OF c e d r3 m(1), of "[]"] success_on_attempt [OF c e d r1 m(2), of "[]"]
    by (simp add: w0_def numeral_3_eq_3 numeral_2_eq_2)
qed

section \<open>The recovering wrapper\<close>

lemma length_runtime_Stack: "length (runtime_Stack n trace) = n"
  by (simp add: runtime_Stack_def)

lemma wrapRecoverFunc_returns:
  assumes "g s = (Returns err, s')"
  shows "wrapRecoverFunc g stk allg s = (Inr err, s')"
  using assms by (simp add: wrapRecoverFunc_def)

lemma wrapRecoverFunc_recovers:
  assumes "g s = (Panics (Some p) tr, s')" and "0 \<le> stk"
  shows "wrapRecoverFunc g stk allg s
           = (Inr (Some (Errorf (p @ [newline] @ runtime_Stack (nat stk) (tr allg) @ [newline]))), s')"
  using assms by (simp add: wrapRecoverFunc_def)

lemma wrapRecoverFunc_nil_panic:
  assumes "g s = (Panics None tr, s')"
  shows "wrapRecoverFunc g stk allg s = (Inr None, s')"
  using assms by (simp add: wrapRecoverFunc_def)

lemma recovered_panics_are_retried:
  "Try (configured [CallMaxAttemptTimes 2, CallStack 12 False, CallFunction (Value func_plain op_panics trace0)])
     [] w0
   = Returned (Some (MultiError
       [Errorf (''panic here'' @ [newline] @ ''goroutine 1 '' @ [newline]),
        Errorf (''panic here'' @ [newline] @ ''goroutine 1 '' @ [newline])]))
       (w0\<lparr>opstate := 2, invoked := 2, slept := [0, 0]\<rparr>)"
  by (simp add: config_defs run_defs op_panics_def trace0_def)

text \<open>
  Claim C4 fails on the code for a panic whose recovered value is \<^verbatim>\<open>nil\<close>. The
  operation \<^verbatim>\<open>func() { panic(nil) }\<close> panics on its first call; the deferred function
  of the wrapper takes the \<^verbatim>\<open>nil\<close> from \<^verbatim>\<open>recover()\<close> for no panic and leaves the
  result at \<^verbatim>\<open>nil\<close>; the engine, with three attempts allowed, takes the attempt as a
  success and returns \<^verbatim>\<open>nil\<close> after one invocation.
\<close>

theorem nil_panic_taken_as_success:
  "wrapRecoverFunc raw_panics_nil 4096 False 0 = (Inr None, 1)
   \<and> Try (configured [CallMaxAttemptTimes 3, CallFunction (Value func_plain op_panics_nil trace0)]) [] w0
     = Returned None (w0\<lparr>opstate := 1, invoked := 1\<rparr>)"
  by (simp add: config_defs run_defs op_panics_nil_def raw_panics_nil_def)

section \<open>Running against a deadline\<close>

lemma run_append:
  "run r (xs @ ys) c = (case run r xs c of None \<Rightarrow> None | Some c' \<Rightarrow> run r ys c')"
  by (induction xs arbitrary: c) (simp_all split: option.splits)

lemma Try_accepted_deadline:
  assumes "errors r = []" and "0 <s maxDelay r"
  shows "Try r sched w = tryWithTimeout r sched w"
  using assms by (simp add: Try_def AppendAll_def ErrorOrNil_def)

lemma step_Timeout:
  assumes "running c" and "coord c = CSelect" and "fired c"
  shows "step r Timeout c = Some (c\<lparr>coord := CReturned (Some ErrTimeout)\<rparr>)"
  using assms by (simp add: step_def)

text \<open>
  While the producer is sending, waiting or about to decrement, \<^verbatim>\<open>count\<close> is still
  positive: the decrement comes last in the loop.
\<close>

lemma act_keeps_count:
  assumes "act r e c = Some c'"
    and "in_round (prod c) \<longrightarrow> 0 < count c"
  shows "in_round (prod c') \<longrightarrow> 0 < count c'"
proof (cases e)
  case Producer
  with assms show ?thesis
    by (cases "prod c") (auto split: if_splits prod.splits sum.splits)
next
  case Deliver
  with assms show ?thesis
    by (auto split: producer.splits coordinator.splits)
next
  case Coordinator
  with assms show ?thesis
    by (auto simp: Let_def split: coordinator.splits option.splits if_splits)
next
  case TimerFires
  with assms show ?thesis
    by (auto split: if_splits)
next
  case Timeout
  with assms show ?thesis
    by (auto split: coordinator.splits if_splits)
qed

lemma run_keeps_count:
  assumes "run r sched c = Some c'"
    and "in_round (prod c) \<longrightarrow> 0 < count c"
  shows "in_round (prod c') \<longrightarrow> 0 < count c'"
  using assms
proof (induction sched arbitrary: c)
  case Nil
  then show ?case by simp
next
  case (Cons e sched)
  then obtain c1 where s: "step r e c = Some c1" and rest: "run r sched c1 = Some c'"
    by (auto split: option.splits)
  from s have "act r e c = Some c1"
    by (simp add: step_def split: if_splits)
  from act_keeps_count [OF this Cons.prems(2)] rest show ?case
    by (rule Cons.IH [rotated])
qed

text \<open>
  So a coordinator that runs the body of its receive case on a failure while the
  producer has not finished the wait and the decrement that follow the send goes
  back to its \<^verbatim>\<open>select\<close>: it does not return the composite, however many attempts
  have been made.
\<close>

lemma early_check_returns_nothing:
  assumes "run r sched (start r w) = Some c"
    and "running c" and "coord c = CGot (Some e)" and "prod c = PWait \<or> prod c = PDec"
  shows "step r Coordinator c = Some (c\<lparr>acc := Append (acc c) (Some e), coord := CSelect\<rparr>)"
proof -
  have "in_round (prod c) \<longrightarrow> 0 < count c"
    using assms(1) by (rule run_keeps_count) (simp add: start_def)
  with assms(4) have "0 < count c"
    by auto
  with assms(2,3) show ?thesis
    by (simp add: step_def Let_def)
qed



text \<open>
  With an operation that always fails, the coordinator never returns the composite
  in this schedule, whatever the number of attempts: all results are handed over
  before the timer fires, and \<^verbatim>\<open>Try\<close> returns \<^verbatim>\<open>ErrTimeout\<close>.
\<close>

lemma call_f_always_fails:
  assumes "always_fails r"
  obtains e w1 where "call_f r w = (Inr (Some e), w1)" and "invoked w1 = invoked w + 1"
proof -
  from assms obtain e s' where "func r (stackSize r) (allGoroutines r) (opstate w) = (failure e, s')"
    unfolding always_fails_def by blast
  then have "call_f r w = (Inr (Some e), w\<lparr>opstate := s', invoked := invoked w + 1\<rparr>)"
    by (simp add: call_f_def failure_def)
  then show ?thesis
    by (rule that) simp
qed

lemma one_early_check:
  assumes "valid r" and "always_fails r"
    and "prod c = PLoop" and "coord c = CSelect" and "0 < count c"
  shows "\<exists>c'. run r [Producer, Deliver, Coordinator, Producer, Producer] c = Some c'
              \<and> prod c' = PLoop \<and> coord c' = CSelect \<and> count c' = count c - 1
              \<and> fired c' = fired c \<and> invoked (world c') = invoked (world c) + 1"
proof -
  obtain e w1 where f: "call_f r (world c) = (Inr (Some e), w1)" and i: "invoked w1 = invoked (world c) + 1"
    using call_f_always_fails [OF assms(2)] by blast
  obtain w2 where w: "wait r w1 = Inr w2" and i2: "invoked w2 = invoked w1"
    using wait_opstate [OF assms(1), of w1] by blast
  let ?c1 = "c\<lparr>world := w1, prod := PSend (Some e)\<rparr>"
  let ?c2 = "?c1\<lparr>prod := PWait, coord := CGot (Some e)\<rparr>"
  let ?c3 = "?c2\<lparr>acc := Append (acc c) (Some e), coord := CSelect\<rparr>"
  let ?c4 = "?c3\<lparr>world := w2, prod := PDec\<rparr>"
  let ?c5 = "?c4\<lparr>count := count c - 1, prod := PLoop\<rparr>"
  have 1: "step r Producer c = Some ?c1"
    using assms(3,4,5) f by (simp add: step_def running_def)
  have 2: "step r Deliver ?c1 = Some ?c2"
    using assms(4) by (simp add: step_def running_def)
  have 3: "step r Coordinator ?c2 = Some ?c3"
    using assms(5) by (simp add: step_def running_def Let_def)
  have 4: "step r Producer ?c3 = Some ?c4"
    using w by (simp add: step_def running_def)
  have 5: "step r Producer ?c4 = Some ?c5"
    by (simp add: step_def running_def)
  have "run r [Producer, Deliver, Coordinator, Producer, Producer] c = Some ?c5"
    by (simp only: run.simps 1 2 3 4 5 option.case)
  then show ?thesis
    using i i2 by simp
qed

lemma early_checks_run:
  assumes "valid r" and "always_fails r"
  shows "prod c = PLoop \<Longrightarrow> coord c = CSelect \<Longrightarrow> count c = int n \<Longrightarrow>
         \<exists>c'. run r (early_checks n) c = Some c'
              \<and> prod c' = PLoop \<and> coord c' = CSelect \<and> count c' = 0
              \<and> fired c' = fired c \<and> invoked (world c') = invoked (world c) + n"
proof (induction n arbitrary: c)
  case 0
  then show ?case by (simp add: early_checks_def)
next
  case (Suc n)
  from Suc.prems have "0 < count c"
    by simp
  from one_early_check [OF assms Suc.prems(1,2) this] obtain c1 where
    c1: "run r [Producer, Deliver, Coordinator, Producer, Producer] c = Some c1"
      "prod c1 = PLoop" "coord c1 = CSelect" "count c1 = count c - 1"
      "fired c1 = fired c" "invoked (world c1) = invoked (world c) + 1"
    by blast
  from c1(4) Suc.prems(3) have "count c1 = int n"
    by simp
  from Suc.IH [OF c1(2,3) this] obtain c' where
    c': "run r (early_checks n) c1 = Some c'" "prod c' = PLoop" "coord c' = CSelect" "count c' = 0"
      "fired c' = fired c1" "invoked (world c') = invoked (world c1) + n"
    by blast
  have "early_checks (Suc n) = [Producer, Deliver, Coordinator, Producer, Producer] @ early_checks n"
    by (simp add: early_checks_def)
  then have "run r (early_checks (Suc n)) c = Some c'"
    using c1(1) c'(1) by (simp only: run_append option.case)
  with c' c1 show ?case
    by simp
qed

lemma delivered_early_checks:
  "delivered_before_deadline (checks_then_deadline n) = n"
proof -
  have t: "takeWhile (\<lambda>e. e \<noteq> TimerFires) (early_checks n @ [Producer, TimerFires, Timeout])
             = early_checks n @ [Producer]" for n
    by (induction n) (simp_all add: early_checks_def)
  have "length (filter (\<lambda>e. e = Deliver) (early_checks n)) = n" for n
    by (induction n) (simp_all add: early_checks_def)
  with t show ?thesis
    by (simp add: delivered_before_deadline_def checks_then_deadline_def)
qed

lemma exhausted_runs_into_deadline:
  assumes "chain cs New = Inr r" and "errors r = []" and "0 <s maxDelay r" and "always_fails r"
  shows "\<exists>w'. Try r (checks_then_deadline (nat (maxAttemptTimes r))) w = Returned (Some ErrTimeout) w'
              \<and> invoked w' = invoked w + nat (maxAttemptTimes r)"
proof -
  let ?n = "nat (maxAttemptTimes r)"
  have v: "valid r"
    using assms(1,2) by (rule accepted_valid)
  then have n: "count (start r w) = int ?n"
    by (simp add: valid_def start_def)
  from early_checks_run [OF v assms(4) _ _ n] obtain c where
    c: "run r (early_checks ?n) (start r w) = Some c" "prod c = PLoop" "coord c = CSelect"
      "count c = 0" "fired c = fired (start r w)" "invoked (world c) = invoked (world (start r w)) + ?n"
    by (auto simp: start_def)
  let ?c1 = "c\<lparr>prod := PDone\<rparr>"
  let ?c2 = "?c1\<lparr>fired := True\<rparr>"
  let ?c3 = "?c2\<lparr>coord := CReturned (Some ErrTimeout)\<rparr>"
  have 1: "step r Producer c = Some ?c1"
    using c(2,3,4) by (simp add: step_def running_def)
  have 2: "step r TimerFires ?c1 = Some ?c2"
    using c(3,5) by (simp add: step_def running_def start_def)
  have 3: "step r Timeout ?c2 = Some ?c3"
    using c(3) by (simp add: step_def running_def)
  have "run r (checks_then_deadline ?n) (start r w) = Some ?c3"
    unfolding checks_then_deadline_def
    by (simp only: run_append c(1) run.simps 1 2 3 option.case)
  then have "tryWithTimeout r (checks_then_deadline ?n) w = Returned (Some ErrTimeout) (world c)"
    by (simp add: tryWithTimeout_def)
  then have "Try r (checks_then_deadline ?n) w = Returned (Some ErrTimeout) (world c)"
    using Try_accepted_deadline [OF assms(2,3)] by simp
  moreover have "invoked (world c) = invoked w + ?n"
    using c(6) by (simp add: start_def)
  ultimately show ?thesis by blast
qed

text \<open>
  Claim C1 fails on the code. One attempt is allowed, the operation fails, the
  deadline is a minute and the wait a second. The only result is handed over
  before the timer fires, but the coordinator reads \<^verbatim>\<open>count\<close> while the producer has
  not yet finished its wait and decremented it: it reads 1, goes back to its
  \<^verbatim>\<open>select\<close>, no further result comes, and when the timer fires \<^verbatim>\<open>Try\<close> returns
  \<^verbatim>\<open>ErrTimeout\<close>. Only a producer that has waited and decremented before the
  coordinator runs the body of its receive case lets it return the composite.
\<close>

theorem exhausted_taken_as_timeout:
  "delivered_before_deadline
     [Producer, Deliver, Coordinator, Producer, Producer, Producer, TimerFires, Timeout]
     = nat (maxAttemptTimes (configured [CallMaxDelay 60000000000, CallWaitFixed 1000000000,
                                          CallFunction (Value func_error op_fails trace0)]))
   \<and> Try (configured [CallMaxDelay 60000000000, CallWaitFixed 1000000000,
                      CallFunction (Value func_error op_fails trace0)])
       [Producer, Deliver, Coordinator, Producer, Producer, Producer, TimerFires, Timeout] w0
     = Returned (Some ErrTimeout) (w0\<lparr>opstate := 1, invoked := 1, slept := [1000000000]\<rparr>)
   \<and> Try (configured [CallMaxDelay 60000000000, CallWaitFixed 1000000000,
                      CallFunction (Value func_error op_fails trace0)])
       [Producer, Deliver, Producer, Producer, Coordinator] w0
     = Returned (Some (MultiError [Errorf ''failure 1'']))
         (w0\<lparr>opstate := 1, invoked := 1, slept := [1000000000]\<rparr>)"
  by (simp add: config_defs run_defs race_defs op_fails_def decimal_digit delivered_before_deadline_def)

subsection \<open>The deadline and a result that is ready\<close>

text \<open>
  As long as the channel hands no result over, a coordinator that is in its
  \<^verbatim>\<open>select\<close> stays there or returns \<^verbatim>\<open>ErrTimeout\<close>, and accumulates nothing.
\<close>

lemma act_without_delivery:
  assumes "act r e c = Some c'" and "e \<noteq> Deliver"
    and "coord c = CSelect"
  shows "(coord c' = CSelect \<or> coord c' = CReturned (Some ErrTimeout)) \<and> acc c' = acc c"
proof (cases e)
  case Producer
  with assms show ?thesis
    by (cases "prod c") (auto split: if_splits prod.splits sum.splits)
next
  case Deliver
  with assms show ?thesis by simp
next
  case Coordinator
  with assms show ?thesis by simp
next
  case TimerFires
  with assms show ?thesis
    by (auto split: if_splits)
next
  case Timeout
  with assms show ?thesis
    by (auto split: if_splits)
qed

lemma run_without_delivery:
  assumes "run r es c = Some c'" and "Deliver \<notin> set es"
    and "coord c = CSelect \<or> coord c = CReturned (Some ErrTimeout)"
  shows "(coord c' = CSelect \<or> coord c' = CReturned (Some ErrTimeout)) \<and> acc c' = acc c"
  using assms
proof (induction es arbitrary: c)
  case Nil
  then show ?case by simp
next
  case (Cons e es)
  then obtain c1 where s: "step r e c = Some c1" and rest: "run r es c1 = Some c'"
    by (auto split: option.splits)
  from s have run: "running c" and a: "act r e c = Some c1"
    by (simp_all add: step_def split: if_splits)
  from run Cons.prems(3) have sel: "coord c = CSelect"
    by (auto simp: running_def)
  from Cons.prems(2) have ne: "e \<noteq> Deliver" and nd: "Deliver \<notin> set es"
    by auto
  from act_without_delivery [OF a ne sel]
  have c1: "coord c1 = CSelect \<or> coord c1 = CReturned (Some ErrTimeout)" and a1: "acc c1 = acc c"
    by simp_all
  from Cons.IH [OF rest nd c1] a1 show ?case
    by simp
qed

text \<open>
  The channel hands nothing over while the producer has no result to send and
  does not run: when the operation is still at work, or the producer has ended.
\<close>

lemma nothing_to_deliver:
  assumes "run r es c = Some c'" and "Producer \<notin> set es" and "\<And>e. prod c \<noteq> PSend e"
  shows "Deliver \<notin> set es"
  using assms
proof (induction es arbitrary: c)
  case Nil
  then show ?case by simp
next
  case (Cons e es)
  then obtain c1 where s: "step r e c = Some c1" and rest: "run r es c1 = Some c'"
    by (auto split: option.splits)
  from s have a: "act r e c = Some c1"
    by (simp add: step_def split: if_splits)
  from Cons.prems(2) have np: "e \<noteq> Producer" and nps: "Producer \<notin> set es"
    by auto
  have "e \<noteq> Deliver \<and> prod c1 = prod c"
  proof (cases e)
    case Producer
    with np show ?thesis by simp
  next
    case Deliver
    with a Cons.prems(3) show ?thesis
      by (cases "prod c") (auto split: coordinator.splits)
  next
    case Coordinator
    with a show ?thesis
      by (auto simp: Let_def split: coordinator.splits option.splits if_splits)
  next
    case TimerFires
    with a show ?thesis
      by (auto split: if_splits)
  next
    case Timeout
    with a show ?thesis
      by (auto split: coordinator.splits if_splits)
  qed
  then have "e \<noteq> Deliver" and "\<And>x. prod c1 \<noteq> PSend x"
    using Cons.prems(3) by simp_all
  with Cons.IH [OF rest nps] show ?case
    by simp
qed

text \<open>
  So a deadline that elapses while the operation is at work, with the coordinator in
  its \<^verbatim>\<open>select\<close>, ends the run with \<^verbatim>\<open>ErrTimeout\<close> when the \<^verbatim>\<open>select\<close> runs before the
  operation is done.
\<close>

lemma deadline_with_nothing_ready:
  assumes "run r sched (start r w) = Some c" and "coord c = CSelect"
    and "\<And>e. prod c \<noteq> PSend e" and "Producer \<notin> set es"
    and "tryWithTimeout r (sched @ es) w = Returned res w'"
  shows "res = Some ErrTimeout"
proof -
  from assms(5) obtain c' where c': "run r (sched @ es) (start r w) = Some c'"
    and ret: "coord c' = CReturned res"
    by (auto simp: tryWithTimeout_def split: option.splits producer.splits coordinator.splits)
  from c' assms(1) have rest: "run r es c = Some c'"
    by (simp add: run_append)
  from nothing_to_deliver [OF rest assms(4,3)] have "Deliver \<notin> set es" .
  from run_without_delivery [OF rest this] assms(2) ret show ?thesis
    by auto
qed

text \<open>
  The timer case can be taken at every such point: the hypotheses of the theorem
  below are met at least by the continuation that takes it at once.
\<close>

lemma timer_case_enabled:
  assumes "run r sched (start r w) = Some c"
    and "running c" and "coord c = CSelect" and "fired c"
  shows "tryWithTimeout r (sched @ [Timeout]) w = Returned (Some ErrTimeout) (world c)"
proof -
  have "run r (sched @ [Timeout]) (start r w) = Some (c\<lparr>coord := CReturned (Some ErrTimeout)\<rparr>)"
    using assms(1) step_Timeout [OF assms(2,3,4), of r] by (simp add: run_append)
  moreover have "\<And>p. prod c \<noteq> PCrashed p"
    using assms(2,3) by (auto simp: running_def)
  ultimately show ?thesis
    by (cases "prod c") (auto simp: tryWithTimeout_def)
qed




end
